theory Spec2Isabelle
  imports Main "HOL-Library.List_Lexorder" "HOL-Library.Multiset"
begin

section \<open>Python strings\<close>

text \<open>
  A Python \<^verbatim>\<open>str\<close> is a sequence of Unicode code points; it is modelled as a list of
  natural numbers, one per code point. \<open>lit\<close> embeds an ASCII literal of the source.
\<close>

type_synonym str = "nat list"

abbreviation lit :: "string \<Rightarrow> str" where
  "lit s \<equiv> map of_char s"

text \<open>
  \<^verbatim>\<open>str.isspace\<close> for one code point (\<^verbatim>\<open>Py_UNICODE_ISSPACE\<close>). The same table decides
  what \<^verbatim>\<open>str.strip()\<close> removes and what \<^verbatim>\<open>\s\<close> matches in a \<^verbatim>\<open>str\<close> pattern.
\<close>

definition isspace :: "nat \<Rightarrow> bool" where
  "isspace c \<longleftrightarrow>
     (0x09 \<le> c \<and> c \<le> 0x0D) \<or> (0x1C \<le> c \<and> c \<le> 0x20) \<or> c = 0x85 \<or> c = 0xA0 \<or>
     c = 0x1680 \<or> (0x2000 \<le> c \<and> c \<le> 0x200A) \<or> c = 0x2028 \<or> c = 0x2029 \<or>
     c = 0x202F \<or> c = 0x205F \<or> c = 0x3000"

text \<open>The line boundaries of \<^verbatim>\<open>str.splitlines()\<close>.\<close>

definition is_linebreak :: "nat \<Rightarrow> bool" where
  "is_linebreak c \<longleftrightarrow>
     (0x0A \<le> c \<and> c \<le> 0x0D) \<or> (0x1C \<le> c \<and> c \<le> 0x1E) \<or> c = 0x85 \<or>
     c = 0x2028 \<or> c = 0x2029"

text \<open>\<^verbatim>\<open>s.strip()\<close>: leading and trailing whitespace removed.\<close>

definition strip :: "str \<Rightarrow> str" where
  "strip s = rev (dropWhile isspace (rev (dropWhile isspace s)))"

text \<open>
  \<^verbatim>\<open>s.splitlines()\<close>: \<open>cur\<close> is the line being read. \<^verbatim>\<open>\r\n\<close> is one boundary, and a
  boundary at the very end opens no further line.
\<close>

fun splitlines_from :: "str \<Rightarrow> str \<Rightarrow> str list" where
  "splitlines_from cur [] = (if cur = [] then [] else [cur])"
| "splitlines_from cur [c] = (if is_linebreak c then [cur] else [cur @ [c]])"
| "splitlines_from cur (c # d # cs) =
     (if c = 0x0D \<and> d = 0x0A then cur # splitlines_from [] cs
      else if is_linebreak c then cur # splitlines_from [] (d # cs)
      else splitlines_from (cur @ [c]) (d # cs))"

definition splitlines :: "str \<Rightarrow> str list" where
  "splitlines s = splitlines_from [] s"

text \<open>\<^verbatim>\<open>s.startswith(p)\<close>.\<close>

definition startswith :: "str \<Rightarrow> str \<Rightarrow> bool" where
  "startswith p s \<longleftrightarrow> take (length p) s = p"

text \<open>\<^verbatim>\<open>sep.join(xs)\<close>.\<close>

fun join :: "str \<Rightarrow> str list \<Rightarrow> str" where
  "join sep [] = []"
| "join sep [x] = x"
| "join sep (x # y # ys) = x @ sep @ join sep (y # ys)"

text \<open>
  \<^verbatim>\<open>s.split(sep, 1)\<close> for a non-empty \<open>sep\<close>: the text before and after the first
  occurrence of \<open>sep\<close>, or \<open>s\<close> alone when \<open>sep\<close> does not occur. \<open>pre\<close> is the text
  already passed.
\<close>

fun split_from :: "str \<Rightarrow> str \<Rightarrow> str \<Rightarrow> str list" where
  "split_from sep pre [] = (if sep = [] then [pre, []] else [pre])"
| "split_from sep pre (c # cs) =
     (if startswith sep (c # cs) then [pre, drop (length sep) (c # cs)]
      else split_from sep (pre @ [c]) cs)"

definition split1 :: "str \<Rightarrow> str \<Rightarrow> str list" where
  "split1 sep s = split_from sep [] s"

text \<open>\<^verbatim>\<open>sub in s\<close>.\<close>

fun contains :: "str \<Rightarrow> str \<Rightarrow> bool" where
  "contains sub [] \<longleftrightarrow> sub = []"
| "contains sub (c # cs) \<longleftrightarrow> startswith sub (c # cs) \<or> contains sub cs"

section \<open>Regular expressions\<close>

text \<open>
  The patterns of the program use literal characters, greedy and lazy repetition of one
  character class, capturing groups and an optional group. \<open>rmatch\<close> is the backtracking
  matcher of \<^verbatim>\<open>re\<close>: alternatives are tried in priority order and the first complete match
  wins. The continuation \<open>k\<close> stands for the rest of the pattern; \<open>g\<close> holds the captured
  groups.
\<close>

datatype re =
    Eps
  | Chr nat
  | Star "nat \<Rightarrow> bool"
  | Plus "nat \<Rightarrow> bool"
  | PlusLazy "nat \<Rightarrow> bool"
  | Grp nat re
  | Opt re
  | Seq re re

type_synonym groups = "nat \<Rightarrow> str option"

fun star_greedy :: "(nat \<Rightarrow> bool) \<Rightarrow> str \<Rightarrow> (str \<Rightarrow> 'r option) \<Rightarrow> 'r option" where
  "star_greedy p [] k = k []"
| "star_greedy p (c # cs) k =
     (if p c then (case star_greedy p cs k of Some r \<Rightarrow> Some r | None \<Rightarrow> k (c # cs))
      else k (c # cs))"

fun star_lazy :: "(nat \<Rightarrow> bool) \<Rightarrow> str \<Rightarrow> (str \<Rightarrow> 'r option) \<Rightarrow> 'r option" where
  "star_lazy p [] k = k []"
| "star_lazy p (c # cs) k =
     (case k (c # cs) of Some r \<Rightarrow> Some r
      | None \<Rightarrow> if p c then star_lazy p cs k else None)"

fun rmatch :: "re \<Rightarrow> str \<Rightarrow> groups \<Rightarrow> (str \<Rightarrow> groups \<Rightarrow> 'r option) \<Rightarrow> 'r option" where
  "rmatch Eps s g k = k s g"
| "rmatch (Chr a) s g k =
     (case s of [] \<Rightarrow> None | c # cs \<Rightarrow> if c = a then k cs g else None)"
| "rmatch (Star p) s g k = star_greedy p s (\<lambda>s'. k s' g)"
| "rmatch (Plus p) s g k =
     (case s of [] \<Rightarrow> None
      | c # cs \<Rightarrow> if p c then star_greedy p cs (\<lambda>s'. k s' g) else None)"
| "rmatch (PlusLazy p) s g k =
     (case s of [] \<Rightarrow> None
      | c # cs \<Rightarrow> if p c then star_lazy p cs (\<lambda>s'. k s' g) else None)"
| "rmatch (Grp n r) s g k =
     rmatch r s g (\<lambda>s' g'. k s' (g'(n := Some (take (length s - length s') s))))"
| "rmatch (Opt r) s g k =
     (case rmatch r s g k of Some x \<Rightarrow> Some x | None \<Rightarrow> k s g)"
| "rmatch (Seq r1 r2) s g k = rmatch r1 s g (\<lambda>s' g'. rmatch r2 s' g' k)"

text \<open>A pattern written as the sequence of its parts.\<close>

definition cat :: "re list \<Rightarrow> re" where
  "cat rs = foldr Seq rs Eps"

definition chars :: "string \<Rightarrow> re" where
  "chars s = cat (map Chr (lit s))"

text \<open>
  \<^verbatim>\<open>re.match(r, s)\<close>: anchored at the start of \<open>s\<close> only. The result is the text left
  after the match and the groups.
\<close>

definition re_match :: "re \<Rightarrow> str \<Rightarrow> (str \<times> groups) option" where
  "re_match r s = rmatch r s (\<lambda>n. None) (\<lambda>s' g. Some (s', g))"

text \<open>\<^verbatim>\<open>m.group(n) or ""\<close>, also the value of \<^verbatim>\<open>\n\<close> in a replacement template.\<close>

definition group_or_empty :: "groups \<Rightarrow> nat \<Rightarrow> str" where
  "group_or_empty g n = (case g n of None \<Rightarrow> [] | Some x \<Rightarrow> x)"

text \<open>
  \<^verbatim>\<open>re.sub(r, template, s)\<close>: the leftmost match is replaced and the search goes on
  behind it; where nothing matches, one character is copied. An empty match is replaced
  and the next character copied.
\<close>

function re_sub :: "re \<Rightarrow> (groups \<Rightarrow> str) \<Rightarrow> str \<Rightarrow> str" where
  "re_sub r f s =
     (case re_match r s of
        None \<Rightarrow> (case s of [] \<Rightarrow> [] | c # cs \<Rightarrow> c # re_sub r f cs)
      | Some (s', g) \<Rightarrow>
          if length s' < length s then f g @ re_sub r f s'
          else f g @ (case s of [] \<Rightarrow> [] | c # cs \<Rightarrow> c # re_sub r f cs))"
  by pat_completeness auto
termination
  by (relation "measure (\<lambda>(r, f, s). length s)") auto

declare re_sub.simps [simp del]

section \<open>The inline formatter\<close>

text \<open>\<^verbatim>\<open>.\<close> matches every character but the newline.\<close>

definition dot :: "nat \<Rightarrow> bool" where
  "dot c \<longleftrightarrow> c \<noteq> 0x0A"

text \<open>\<^verbatim>\<open>\*\*(.+?)\*\*\<close>, \<^verbatim>\<open>\*(.+?)\*\<close> and \<^verbatim>\<open>\[([^\]]+)\]\(([^)]+)\)\<close>.\<close>

definition bold_re :: re where
  "bold_re = cat [chars ''**'', Grp 1 (PlusLazy dot), chars ''**'']"

definition italic_re :: re where
  "italic_re = cat [chars ''*'', Grp 1 (PlusLazy dot), chars ''*'']"

definition link_re :: re where
  "link_re = cat [chars ''['', Grp 1 (Plus (\<lambda>c. c \<noteq> of_char CHR '']'')), chars '']('',
                  Grp 2 (Plus (\<lambda>c. c \<noteq> of_char CHR '')'')), chars '')'']"

definition bold_repl :: "groups \<Rightarrow> str" where
  "bold_repl g = lit ''<strong>'' @ group_or_empty g 1 @ lit ''</strong>''"

definition italic_repl :: "groups \<Rightarrow> str" where
  "italic_repl g = lit ''<em>'' @ group_or_empty g 1 @ lit ''</em>''"

definition link_repl :: "groups \<Rightarrow> str" where
  "link_repl g =
     lit ''<a href=\"'' @ group_or_empty g 2 @ lit ''\">'' @ group_or_empty g 1 @ lit ''</a>''"

definition inline_format :: "str \<Rightarrow> str" where
  "inline_format text =
     (let text = re_sub bold_re bold_repl text;
          text = re_sub italic_re italic_repl text;
          text = re_sub link_re link_repl text
      in text)"

section \<open>The block scanner\<close>

text \<open>
  \<^verbatim>\<open>\[SLIKA:\s*(.+?)\s*(?:\|\s*(.+?))?\s*\]\<close>, and the prefix \<^verbatim>\<open>\[SLIKA:\<close> that the
  paragraph loop tests.
\<close>

definition img_re :: re where
  "img_re = cat [chars ''[SLIKA:'', Star isspace, Grp 1 (PlusLazy dot), Star isspace,
                 Opt (cat [chars ''|'', Star isspace, Grp 2 (PlusLazy dot)]),
                 Star isspace, chars '']'']"

definition img_prefix_re :: re where
  "img_prefix_re = chars ''[SLIKA:''"

text \<open>
  The state of the \<^verbatim>\<open>while i < len(lines)\<close> loop. The cursor \<^verbatim>\<open>i\<close> is kept as the
  lines not yet consumed, \<^verbatim>\<open>lines[i:]\<close>: the loop runs while that list is not empty, and
  \<^verbatim>\<open>i += 1\<close> drops its head.
\<close>

record scan_state =
  rest :: "str list"
  in_list :: bool
  html_parts :: "str list"

text \<open>\<^verbatim>\<open>if in_list: html_parts.append("        </ul>"); in_list = False\<close>.\<close>

definition close_list :: "bool \<Rightarrow> str list \<Rightarrow> str list" where
  "close_list il parts = (if il then parts @ [lit ''        </ul>''] else parts)"

definition figure_parts :: "str \<Rightarrow> str \<Rightarrow> str \<Rightarrow> str list" where
  "figure_parts folder_name img_file caption =
     [lit ''        <figure class=\"blog-figure\">'',
      lit ''          <img src=\"'' @ folder_name @ lit ''/'' @ img_file @ lit ''\" alt=\"'' @
        caption @ lit ''\" loading=\"lazy\">''] @
     (if caption \<noteq> [] then [lit ''          <figcaption>'' @ caption @ lit ''</figcaption>'']
      else []) @
     [lit ''        </figure>'']"

definition is_quote_line :: "str \<Rightarrow> bool" where
  "is_quote_line l \<longleftrightarrow> startswith (lit ''> '') (strip l)"

definition blockquote_parts :: "str list \<Rightarrow> str list" where
  "blockquote_parts quote_lines =
     [lit ''        <blockquote>'',
      lit ''          '' @ inline_format (join (lit '' '') quote_lines),
      lit ''        </blockquote>'']"

text \<open>The test that ends the paragraph loop, on a stripped line.\<close>

definition para_break :: "str \<Rightarrow> bool" where
  "para_break l \<longleftrightarrow>
     l = [] \<or> startswith (lit ''## '') l \<or> startswith (lit ''### '') l \<or>
     startswith (lit ''> '') l \<or> startswith (lit ''- '') l \<or> re_match img_prefix_re l \<noteq> None"

definition is_para_line :: "str \<Rightarrow> bool" where
  "is_para_line l \<longleftrightarrow> \<not> para_break (strip l)"

text \<open>
  One pass through the body of the \<^verbatim>\<open>while\<close> loop, from its head to the
  \<^verbatim>\<open>continue\<close> it reaches. The two inner loops consume the longest run of lines that
  pass their test, starting at the cursor.
\<close>

definition txt_step :: "str \<Rightarrow> scan_state \<Rightarrow> scan_state" where
  "txt_step folder_name st =
     (case rest st of
        [] \<Rightarrow> st
      | line # after \<Rightarrow>
          let stripped = strip line; closed = close_list (in_list st) (html_parts st) in
          if stripped = [] then
            \<lparr>rest = after, in_list = False, html_parts = closed\<rparr>
          else case re_match img_re stripped of
            Some (s', g) \<Rightarrow>
              \<lparr>rest = after, in_list = False,
               html_parts = closed @
                 figure_parts folder_name (group_or_empty g 1) (group_or_empty g 2)\<rparr>
          | None \<Rightarrow>
              if startswith (lit ''## '') stripped \<and> \<not> startswith (lit ''### '') stripped then
                \<lparr>rest = after, in_list = False,
                 html_parts = closed @
                   [lit ''        <h2>'' @ inline_format (strip (drop 3 stripped)) @ lit ''</h2>'']\<rparr>
              else if startswith (lit ''### '') stripped then
                \<lparr>rest = after, in_list = False,
                 html_parts = closed @
                   [lit ''        <h3>'' @ inline_format (strip (drop 4 stripped)) @ lit ''</h3>'']\<rparr>
              else if startswith (lit ''> '') stripped then
                \<lparr>rest = dropWhile is_quote_line (line # after), in_list = False,
                 html_parts = closed @
                   blockquote_parts
                     (map (\<lambda>l. drop 2 (strip l)) (takeWhile is_quote_line (line # after)))\<rparr>
              else if startswith (lit ''- '') stripped then
                \<lparr>rest = after, in_list = True,
                 html_parts =
                   (if in_list st then html_parts st else html_parts st @ [lit ''        <ul>'']) @
                   [lit ''          <li>'' @ inline_format (strip (drop 2 stripped)) @ lit ''</li>'']\<rparr>
              else
                \<lparr>rest = dropWhile is_para_line (line # after), in_list = False,
                 html_parts = closed @
                   [lit ''        <p>'' @
                    inline_format (join (lit '' '') (map strip (takeWhile is_para_line (line # after)))) @
                    lit ''</p>'']\<rparr>)"

text \<open>
  The loop itself. It may run forever, so its result is an option: \<open>None\<close> means that
  the loop never leaves.
\<close>

partial_function (option) txt_while :: "str \<Rightarrow> scan_state \<Rightarrow> scan_state option" where
  "txt_while folder_name st =
     (if rest st \<noteq> [] then txt_while folder_name (txt_step folder_name st) else Some st)"

declare txt_while.simps [code]

definition txt_to_html_content :: "str \<Rightarrow> str \<Rightarrow> str option" where
  "txt_to_html_content body_text folder_name =
     (case txt_while folder_name
             \<lparr>rest = splitlines (strip body_text), in_list = False, html_parts = []\<rparr> of
        None \<Rightarrow> None
      | Some st \<Rightarrow> Some (join (lit ''\<newline>'') (close_list (in_list st) (html_parts st))))"

section \<open>Metadata\<close>

datatype error = ValueError | KeyError

text \<open>
  The tables of the Unicode character database that the program reaches through
  \<^verbatim>\<open>str.upper()\<close> and through the \<^verbatim>\<open>\d\<close> and \<^verbatim>\<open>int()\<close> of \<^verbatim>\<open>strptime\<close> are a parameter
  of the model. They are consulted for code points outside ASCII only; on ASCII the
  model is fixed.
\<close>

record unicode =
  upper_map :: "nat \<Rightarrow> str"
  decimal_value :: "nat \<Rightarrow> nat option"

text \<open>The tables of a text that has no case mapping and no digit outside ASCII.\<close>

definition plain_unicode :: unicode where
  "plain_unicode = \<lparr>upper_map = (\<lambda>c. [c]), decimal_value = (\<lambda>c. None)\<rparr>"

text \<open>\<^verbatim>\<open>s.upper()\<close>: every code point is replaced by its uppercase mapping.\<close>

definition upper_char :: "unicode \<Rightarrow> nat \<Rightarrow> str" where
  "upper_char U c =
     (if 0x61 \<le> c \<and> c \<le> 0x7A then [c - 0x20] else if c < 0x80 then [c] else upper_map U c)"

definition str_upper :: "unicode \<Rightarrow> str \<Rightarrow> str" where
  "str_upper U s = concat (map (upper_char U) s)"

type_synonym metadata = "str \<rightharpoonup> str"

text \<open>
  The loop of \<^verbatim>\<open>parse_metadata\<close>. The unpacking \<^verbatim>\<open>key, val = line.split(":", 1)\<close>
  raises \<^verbatim>\<open>ValueError\<close> unless the split has exactly two parts.
\<close>

fun metadata_loop :: "unicode \<Rightarrow> str list \<Rightarrow> metadata \<Rightarrow> error + metadata" where
  "metadata_loop U [] meta = Inr meta"
| "metadata_loop U (line # ls) meta =
     (let line = strip line in
      if contains (lit '':'') line then
        (case split1 (lit '':'') line of
           [key, val] \<Rightarrow> metadata_loop U ls (meta(str_upper U (strip key) \<mapsto> strip val))
         | _ \<Rightarrow> Inl ValueError)
      else metadata_loop U ls meta)"

definition parse_metadata :: "unicode \<Rightarrow> str \<Rightarrow> error + metadata" where
  "parse_metadata U header_text = metadata_loop U (splitlines (strip header_text)) Map.empty"

text \<open>\<^verbatim>\<open>meta.get(key, default)\<close>.\<close>

definition meta_get :: "metadata \<Rightarrow> str \<Rightarrow> str \<Rightarrow> str" where
  "meta_get meta key dflt = (case meta key of None \<Rightarrow> dflt | Some v \<Rightarrow> v)"

section \<open>Dates\<close>

definition MONTHS_HR :: "str list" where
  "MONTHS_HR =
     [lit ''sije'' @ [0x10D] @ lit ''nja'', lit ''velja'' @ [0x10D] @ lit ''e'',
      lit ''o'' @ [0x17E] @ lit ''ujka'', lit ''travnja'', lit ''svibnja'', lit ''lipnja'',
      lit ''srpnja'', lit ''kolovoza'', lit ''rujna'', lit ''listopada'', lit ''studenoga'',
      lit ''prosinca'']"

text \<open>\<^verbatim>\<open>\d\<close>: a decimal digit and its value.\<close>

definition digit_value :: "unicode \<Rightarrow> nat \<Rightarrow> nat option" where
  "digit_value U c =
     (if 0x30 \<le> c \<and> c \<le> 0x39 then Some (c - 0x30) else if c < 0x80 then None
      else decimal_value U c)"

text \<open>A character of the ASCII range \<^verbatim>\<open>[lo-hi]\<close> of digits, and its value.\<close>

definition in_range :: "nat \<Rightarrow> nat \<Rightarrow> nat \<Rightarrow> bool" where
  "in_range lo hi c \<longleftrightarrow> 0x30 + lo \<le> c \<and> c \<le> 0x30 + hi"

text \<open>
  The directives of \<^verbatim>\<open>strptime\<close> as its regular expressions read them:
  \<^verbatim>\<open>%Y\<close> is \<^verbatim>\<open>\d\d\d\d\<close>, \<^verbatim>\<open>%m\<close> is \<^verbatim>\<open>1[0-2]|0[1-9]|[1-9]\<close> and \<^verbatim>\<open>%d\<close> is
  \<^verbatim>\<open>3[0-1]|[1-2]\d|0[1-9]|[1-9]| [1-9]\<close>, the alternatives tried in this order. Each
  returns the number read and the text left.
\<close>

fun match_Y :: "unicode \<Rightarrow> str \<Rightarrow> (nat \<times> str) option" where
  "match_Y U (a # b # c # d # s) =
     (case (digit_value U a, digit_value U b, digit_value U c, digit_value U d) of
        (Some x, Some y, Some z, Some w) \<Rightarrow> Some (1000 * x + 100 * y + 10 * z + w, s)
      | _ \<Rightarrow> None)"
| "match_Y U s = None"

fun match_m :: "str \<Rightarrow> (nat \<times> str) option" where
  "match_m [] = None"
| "match_m [a] = (if in_range 1 9 a then Some (a - 0x30, []) else None)"
| "match_m (a # b # s) =
     (if a = 0x31 \<and> in_range 0 2 b then Some (10 + (b - 0x30), s)
      else if a = 0x30 \<and> in_range 1 9 b then Some (b - 0x30, s)
      else if in_range 1 9 a then Some (a - 0x30, b # s)
      else None)"

fun match_d :: "unicode \<Rightarrow> str \<Rightarrow> (nat \<times> str) option" where
  "match_d U [] = None"
| "match_d U [a] = (if in_range 1 9 a then Some (a - 0x30, []) else None)"
| "match_d U (a # b # s) =
     (if a = 0x33 \<and> in_range 0 1 b then Some (30 + (b - 0x30), s)
      else if in_range 1 2 a \<and> digit_value U b \<noteq> None
        then Some (10 * (a - 0x30) + (case digit_value U b of Some v \<Rightarrow> v | None \<Rightarrow> 0), s)
      else if a = 0x30 \<and> in_range 1 9 b then Some (b - 0x30, s)
      else if in_range 1 9 a then Some (a - 0x30, b # s)
      else if a = 0x20 \<and> in_range 1 9 b then Some (b - 0x30, s)
      else None)"

definition is_leap :: "nat \<Rightarrow> bool" where
  "is_leap y \<longleftrightarrow> y mod 4 = 0 \<and> (y mod 100 \<noteq> 0 \<or> y mod 400 = 0)"

definition days_in_month :: "nat \<Rightarrow> nat \<Rightarrow> nat" where
  "days_in_month y m =
     (if m = 2 then (if is_leap y then 29 else 28)
      else if m = 4 \<or> m = 6 \<or> m = 9 \<or> m = 11 then 30 else 31)"

record date =
  year :: nat
  month :: nat
  day :: nat

text \<open>
  \<^verbatim>\<open>datetime.strptime(s, "%Y-%m-%d")\<close>: the text must match from its start, nothing may
  be left behind the match, and the three numbers must be a date of the calendar.
\<close>

definition strptime :: "unicode \<Rightarrow> str \<Rightarrow> error + date" where
  "strptime U s =
     (case match_Y U s of
        None \<Rightarrow> Inl ValueError
      | Some (y, s1) \<Rightarrow>
          (case s1 of
             [] \<Rightarrow> Inl ValueError
           | c1 # s2 \<Rightarrow>
               if c1 \<noteq> 0x2D then Inl ValueError
               else case match_m s2 of
                 None \<Rightarrow> Inl ValueError
               | Some (m, s3) \<Rightarrow>
                   (case s3 of
                      [] \<Rightarrow> Inl ValueError
                    | c2 # s4 \<Rightarrow>
                        if c2 \<noteq> 0x2D then Inl ValueError
                        else case match_d U s4 of
                          None \<Rightarrow> Inl ValueError
                        | Some (d, s5) \<Rightarrow>
                            if s5 \<noteq> [] then Inl ValueError
                            else if y < 1 \<or> d < 1 \<or> days_in_month y m < d then Inl ValueError
                            else Inr \<lparr>year = y, month = m, day = d\<rparr>)))"

text \<open>\<^verbatim>\<open>str(n)\<close> for a natural number.\<close>

fun str_of_nat :: "nat \<Rightarrow> str" where
  "str_of_nat n = (if n < 10 then [0x30 + n] else str_of_nat (n div 10) @ [0x30 + n mod 10])"

declare str_of_nat.simps [simp del]

definition format_date_hr :: "unicode \<Rightarrow> str \<Rightarrow> error + str" where
  "format_date_hr U date_str =
     (case strptime U (strip date_str) of
        Inl e \<Rightarrow> Inl e
      | Inr d \<Rightarrow>
          Inr (str_of_nat (day d) @ lit ''. '' @ MONTHS_HR ! (month d - 1) @ lit '' '' @
               str_of_nat (year d) @ lit ''.''))"

section \<open>The page\<close>

definition BASE_URL :: str where
  "BASE_URL = lit ''https://tenderatlas.hr''"

text \<open>
  The page that \<^verbatim>\<open>generate_html\<close> returns is one fixed text with nine values put into
  it. The fixed text never changes, so a page is kept as these nine values.
\<close>

record page =
  p_title :: str
  p_desc :: str
  p_slug :: str
  p_hero_img_url :: str
  p_date :: str
  p_date_hr :: str
  p_tag :: str
  p_hero_section :: str
  p_content_html :: str

definition default_tag :: str where
  "default_tag = [0x10C] @ lit ''lanak''"

definition generate_html :: "unicode \<Rightarrow> metadata \<Rightarrow> str \<Rightarrow> str \<Rightarrow> error + page" where
  "generate_html U meta content_html folder_name =
     (let title = meta_get meta (lit ''NASLOV'') (lit ''Blog Post'');
          desc = meta_get meta (lit ''OPIS'') [];
          date = meta_get meta (lit ''DATUM'') (lit ''2026-01-01'');
          tag = meta_get meta (lit ''KATEGORIJA'') default_tag;
          hero = meta_get meta (lit ''HERO'') [];
          slug = folder_name
      in case format_date_hr U date of
           Inl e \<Rightarrow> Inl e
         | Inr date_hr \<Rightarrow>
             let hero_path = folder_name @ lit ''/'' @ hero;
                 hero_img_url =
                   (if hero \<noteq> [] then BASE_URL @ lit ''/blog/'' @ hero_path
                    else BASE_URL @ lit ''/img.png'');
                 hero_section =
                   (if hero \<noteq> [] then
                      lit ''\<newline>    <div class=\"blog-post-hero\">\<newline>      <img src=\"'' @ hero_path @
                      lit ''\" alt=\"'' @ title @ lit ''\">\<newline>    </div>\<newline>''
                    else [])
             in Inr \<lparr>p_title = title, p_desc = desc, p_slug = slug,
                     p_hero_img_url = hero_img_url, p_date = date, p_date_hr = date_hr,
                     p_tag = tag, p_hero_section = hero_section,
                     p_content_html = content_html\<rparr>)"

section \<open>The build\<close>

text \<open>
  An entry of the blog directory, as the scan sees it: its name, whether it is a
  directory, the text of its \<^verbatim>\<open>sadrzaj.txt\<close> when that file exists, and the name that
  \<^verbatim>\<open>find_first_image\<close> returns for it. The entries come in the order of
  \<^verbatim>\<open>sorted(BLOG_DIR.iterdir())\<close>.
\<close>

record item =
  name :: str
  is_dir :: bool
  sadrzaj :: "str option"
  first_image :: str

text \<open>A record of \<^verbatim>\<open>posts.json\<close>: a dictionary of texts, its keys in their order.\<close>

type_synonym post = "(str \<times> str) list"

definition post_get :: "post \<Rightarrow> str \<Rightarrow> str \<Rightarrow> str" where
  "post_get p key dflt = (case map_of p key of None \<Rightarrow> dflt | Some v \<Rightarrow> v)"

text \<open>\<^verbatim>\<open>s.replace(old, new)\<close>: every occurrence, from the left.\<close>

function replace :: "str \<Rightarrow> str \<Rightarrow> str \<Rightarrow> str" where
  "replace old new [] = (if old = [] then new else [])"
| "replace old new (c # cs) =
     (if old = [] then new @ c # replace old new cs
      else if startswith old (c # cs) then new @ replace old new (drop (length old) (c # cs))
      else c # replace old new cs)"
  by pat_completeness auto
termination
  by (relation "measure (\<lambda>(old, new, s). length s)") auto

text \<open>
  \<^verbatim>\<open>xs.sort(key=f, reverse=True)\<close>: the list is reversed, sorted stably in ascending
  order and reversed again, which keeps equal keys in their original order.
\<close>

definition sort_reverse :: "('a \<Rightarrow> 'k::linorder) \<Rightarrow> 'a list \<Rightarrow> 'a list" where
  "sort_reverse f xs = rev (sort_key f (rev xs))"

text \<open>
  What the scan has built up: the records of this run, the set \<^verbatim>\<open>generated_slugs\<close>,
  the files written (name and page) and the folders skipped with a warning.
\<close>

record build_state =
  posts :: "post list"
  generated_slugs :: "str set"
  written :: "(str \<times> page) list"
  warnings :: "str list"

definition skip_dirs :: "str set" where
  "skip_dirs = {lit ''img''}"

definition scanned :: "item \<Rightarrow> bool" where
  "scanned it \<longleftrightarrow>
     is_dir it \<and>
     \<not> (startswith (lit ''_'') (name it) \<or> startswith (lit ''.'') (name it) \<or> name it \<in> skip_dirs) \<and>
     sadrzaj it \<noteq> None"

text \<open>
  One pass through the body of the loop over the folders. The result is \<open>None\<close> when the
  pass never ends, \<open>Inl\<close> when it raises, and the new state otherwise.
\<close>

definition build_step :: "unicode \<Rightarrow> item \<Rightarrow> build_state \<Rightarrow> (error + build_state) option" where
  "build_step U it st =
     (if \<not> is_dir it then Some (Inr st)
      else if startswith (lit ''_'') (name it) \<or> startswith (lit ''.'') (name it) \<or>
              name it \<in> skip_dirs then Some (Inr st)
      else case sadrzaj it of
        None \<Rightarrow> Some (Inr st)
      | Some raw \<Rightarrow>
          let folder_name = name it; slug = folder_name;
              st = st\<lparr>generated_slugs := insert slug (generated_slugs st)\<rparr>
          in if contains (lit ''---'') raw then
               (case split1 (lit ''---'') raw of
                  [header_part, body_part] \<Rightarrow>
                    (case parse_metadata U header_part of
                       Inl e \<Rightarrow> Some (Inl e)
                     | Inr meta \<Rightarrow>
                         if meta_get meta (lit ''NASLOV'') [] = [] then
                           Some (Inr (st\<lparr>warnings := warnings st @ [folder_name]\<rparr>))
                         else case txt_to_html_content body_part folder_name of
                           None \<Rightarrow> None
                         | Some content_html \<Rightarrow>
                             (case generate_html U meta content_html folder_name of
                                Inl e \<Rightarrow> Some (Inl e)
                              | Inr html \<Rightarrow>
                                  let hero = meta_get meta (lit ''HERO'') [];
                                      thumb =
                                        (if hero \<noteq> [] then folder_name @ lit ''/'' @ hero
                                         else if first_image it \<noteq> []
                                           then folder_name @ lit ''/'' @ first_image it
                                         else lit ''../img.png'')
                                  in case meta (lit ''NASLOV'') of
                                       None \<Rightarrow> Some (Inl KeyError)
                                     | Some title \<Rightarrow>
                                         Some (Inr (st\<lparr>
                                           written := written st @ [(slug @ lit ''.html'', html)],
                                           posts := posts st @
                                             [[(lit ''file'', slug @ lit ''.html''),
                                               (lit ''title'', title),
                                               (lit ''description'', meta_get meta (lit ''OPIS'') []),
                                               (lit ''date'',
                                                meta_get meta (lit ''DATUM'') (lit ''2026-01-01'')),
                                               (lit ''image'', thumb),
                                               (lit ''tag'',
                                                meta_get meta (lit ''KATEGORIJA'') default_tag)]]\<rparr>))))
                | _ \<Rightarrow> Some (Inl ValueError))
             else Some (Inr (st\<lparr>warnings := warnings st @ [folder_name]\<rparr>)))"

fun build_loop :: "unicode \<Rightarrow> item list \<Rightarrow> build_state \<Rightarrow> (error + build_state) option" where
  "build_loop U [] st = Some (Inr st)"
| "build_loop U (it # items) st =
     (case build_step U it st of
        None \<Rightarrow> None
      | Some (Inl e) \<Rightarrow> Some (Inl e)
      | Some (Inr st') \<Rightarrow> build_loop U items st')"

text \<open>The slug that the merge reads off a record of the old catalog.\<close>

definition ep_slug :: "post \<Rightarrow> str" where
  "ep_slug ep = replace (lit ''.html'') [] (post_get ep (lit ''file'') [])"

definition post_date :: "post \<Rightarrow> str" where
  "post_date p = post_get p (lit ''date'') []"

text \<open>
  What a run leaves behind: the files written, the folders warned about, and the new
  \<^verbatim>\<open>posts.json\<close>.
\<close>

record build_result =
  html_files :: "(str \<times> page) list"
  skipped :: "str list"
  batch :: "post list"
  catalog :: "post list"

text \<open>
  \<^verbatim>\<open>build_blog\<close>. \<open>existing_posts\<close> is the list read from \<^verbatim>\<open>posts.json\<close>, empty when
  the file is absent or cannot be parsed.
\<close>

definition build_blog :: "unicode \<Rightarrow> item list \<Rightarrow> post list \<Rightarrow> (error + build_result) option" where
  "build_blog U items existing_posts =
     (case build_loop U items
             \<lparr>posts = [], generated_slugs = {}, written = [], warnings = []\<rparr> of
        None \<Rightarrow> None
      | Some (Inl e) \<Rightarrow> Some (Inl e)
      | Some (Inr st) \<Rightarrow>
          let manual_posts = filter (\<lambda>ep. ep_slug ep \<notin> generated_slugs st) existing_posts;
              all_posts = sort_reverse post_date (posts st @ manual_posts)
          in Some (Inr \<lparr>html_files = written st, skipped = warnings st, batch = posts st,
                        catalog = all_posts\<rparr>))"

section \<open>Notions used in the properties\<close>

text \<open>
  A line on which the scanner does not advance: it begins like an image directive, and
  the image pattern does not match it.
\<close>

definition stuck_line :: "str \<Rightarrow> bool" where
  "stuck_line l \<longleftrightarrow> startswith (lit ''[SLIKA:'') (strip l) \<and> re_match img_re (strip l) = None"




text \<open>
  The file name and the caption of a well-formed image directive: a text with no
  newline, closing bracket or bar, that neither begins nor ends with whitespace. The
  gaps around them are whitespace.
\<close>

definition directive_text :: "str \<Rightarrow> bool" where
  "directive_text t \<longleftrightarrow>
     t \<noteq> [] \<and> \<not> isspace (hd t) \<and> \<not> isspace (last t) \<and>
     (\<forall>c\<in>set t. c \<noteq> 0x0A \<and> c \<noteq> of_char CHR '']'' \<and> c \<noteq> of_char CHR ''|'')"

definition blanks :: "str \<Rightarrow> bool" where
  "blanks w \<longleftrightarrow> (\<forall>c\<in>set w. isspace c)"

text \<open>
  Parts of the image pattern, named for the proofs: the optional caption group, the
  pattern behind the file name, and the pattern behind the caption, the last two with
  the final continuation of \<open>re_match\<close>.
\<close>

definition cap_re :: re where
  "cap_re = cat [chars ''|'', Star isspace, Grp 2 (PlusLazy dot)]"

definition K5 :: "str \<Rightarrow> groups \<Rightarrow> (str \<times> groups) option" where
  "K5 = (\<lambda>s g. rmatch (cat [Star isspace, chars '']'']) s g (\<lambda>s' g'. Some (s', g')))"

definition K3 :: "str \<Rightarrow> groups \<Rightarrow> (str \<times> groups) option" where
  "K3 = (\<lambda>s g. rmatch (cat [Star isspace, Opt cap_re, Star isspace, chars '']'']) s g
                  (\<lambda>s' g'. Some (s', g')))"

text \<open>
  The entries of a header as the specification words them: of every stripped line that
  has a colon, the text before the first colon, stripped and uppercased, and the text
  behind it, stripped.
\<close>

definition line_entry :: "unicode \<Rightarrow> str \<Rightarrow> str \<times> str" where
  "line_entry U l =
     (str_upper U (strip (takeWhile (\<lambda>c. c \<noteq> of_char CHR '':'') l)),
      strip (tl (dropWhile (\<lambda>c. c \<noteq> of_char CHR '':'') l)))"

definition header_entries :: "unicode \<Rightarrow> str list \<Rightarrow> (str \<times> str) list" where
  "header_entries U ls =
     map (line_entry U) (filter (\<lambda>l. of_char CHR '':'' \<in> set l) (map strip ls))"


text \<open>
  The title that the build reads from a text: the \<^verbatim>\<open>NASLOV\<close> of the header before the
  first \<^verbatim>\<open>---\<close>, empty when there is none.
\<close>

definition header_title :: "unicode \<Rightarrow> str \<Rightarrow> str" where
  "header_title U raw =
     (case split1 (lit ''---'') raw of
        [] \<Rightarrow> []
      | header_part # parts \<Rightarrow>
          (case parse_metadata U header_part of
             Inl e \<Rightarrow> []
           | Inr meta \<Rightarrow> meta_get meta (lit ''NASLOV'') []))"

text \<open>The state after a folder has been skipped with a warning.\<close>

definition skipped_state :: "item \<Rightarrow> build_state \<Rightarrow> build_state" where
  "skipped_state it st =
     st\<lparr>generated_slugs := insert (name it) (generated_slugs st),
        warnings := warnings st @ [name it]\<rparr>"

text \<open>The names of the folders that the scan reads: those with a \<^verbatim>\<open>sadrzaj.txt\<close>.\<close>

definition scanned_slugs :: "item list \<Rightarrow> str set" where
  "scanned_slugs items = name ` set (filter scanned items)"

text \<open>\<^verbatim>\<open>s.endswith(suf)\<close>.\<close>

definition endswith :: "str \<Rightarrow> str \<Rightarrow> bool" where
  "endswith suf s \<longleftrightarrow> length suf \<le> length s \<and> drop (length s - length suf) s = suf"

text \<open>
  The slug of a record as the specification has it. A record is written with the file
  \<^verbatim>\<open><slug>.html\<close>, so its slug is the base name of its file: the file name without the
  extension \<^verbatim>\<open>.html\<close> at its end, and the whole file name when it has no such extension.
\<close>

definition record_slug :: "post \<Rightarrow> str" where
  "record_slug ep =
     (let f = post_get ep (lit ''file'') []
      in if endswith (lit ''.html'') f then take (length f - length (lit ''.html'')) f else f)"

text \<open>
  A record whose file name has \<^verbatim>\<open>.html\<close> as its extension at most: the text \<^verbatim>\<open>.html\<close>
  does not occur in the base name.
\<close>

definition plain_file :: "post \<Rightarrow> bool" where
  "plain_file ep \<longleftrightarrow> \<not> contains (lit ''.html'') (record_slug ep)"

text \<open>
  The merged catalog as the claim words it, with the slugs of the records of the new
  batch as the set \<open>G\<close>.
\<close>

definition claimed_catalog :: "post list \<Rightarrow> post list \<Rightarrow> post list" where
  "claimed_catalog new_batch persisted =
     sort_reverse post_date
       (new_batch @ filter (\<lambda>ep. record_slug ep \<notin> record_slug ` set new_batch) persisted)"

text \<open>
  For the examples: a folder that holds a \<^verbatim>\<open>sadrzaj.txt\<close> and no image, and the state
  in which the scan starts.
\<close>

definition post_folder :: "str \<Rightarrow> str \<Rightarrow> item" where
  "post_folder nm raw = \<lparr>name = nm, is_dir = True, sadrzaj = Some raw, first_image = []\<rparr>"

definition no_posts :: build_state where
  "no_posts = \<lparr>posts = [], generated_slugs = {}, written = [], warnings = []\<rparr>"

text \<open>The catalog that a run writes, when the run completes.\<close>

definition catalog_of :: "(error + build_result) option \<Rightarrow> post list option" where
  "catalog_of res = (case res of Some (Inr r) \<Rightarrow> Some (catalog r) | _ \<Rightarrow> None)"

section \<open>Basic facts\<close>

lemma txt_while_stop: "rest st = [] \<Longrightarrow> txt_while f st = Some st"
  by (subst txt_while.simps) simp

lemma txt_while_go: "rest st \<noteq> [] \<Longrightarrow> txt_while f st = txt_while f (txt_step f st)"
  by (subst txt_while.simps) simp

lemma startswith_Cons:
  "startswith (a # p) s \<longleftrightarrow> (case s of [] \<Rightarrow> False | c # cs \<Rightarrow> c = a \<and> startswith p cs)"
  by (cases s) (auto simp: startswith_def)

lemma startswith_Nil: "startswith [] s"
  by (simp add: startswith_def)

lemma img_prefix_None:
  "re_match img_prefix_re l = None \<longleftrightarrow> \<not> startswith (lit ''[SLIKA:'') l"
  by (simp add: re_match_def img_prefix_re_def chars_def cat_def startswith_Cons startswith_Nil
      split: list.splits)

lemma re_sub_Nil: "re_match r [] = None \<Longrightarrow> re_sub r f [] = []"
  by (subst re_sub.simps) simp

lemma inline_format_Nil: "inline_format [] = []"
  by (simp add: inline_format_def re_sub_Nil re_match_def bold_re_def italic_re_def link_re_def
      chars_def cat_def)

section \<open>The scanner on a directive that does not close\<close>

lemma txt_step_stuck:
  assumes "stuck_line l"
  shows "txt_step f \<lparr>rest = l # ls, in_list = il, html_parts = acc\<rparr> =
         \<lparr>rest = l # ls, in_list = False,
          html_parts = close_list il acc @ [lit ''        <p></p>'']\<rparr>"
proof -
  from assms have p: "startswith (lit ''[SLIKA:'') (strip l)"
    and n: "re_match img_re (strip l) = None"
    by (simp_all add: stuck_line_def)
  from p obtain t where s: "strip l = lit ''[SLIKA:'' @ t"
    by (auto simp: startswith_Cons startswith_Nil split: list.splits)
  have "re_match img_prefix_re (strip l) \<noteq> None"
    using p by (simp only: img_prefix_None) simp
  then have "para_break (strip l)"
    unfolding para_break_def by blast
  then have "\<not> is_para_line l"
    by (simp add: is_para_line_def)
  then show ?thesis
    using n s by (simp add: txt_step_def Let_def startswith_Cons startswith_Nil inline_format_Nil)
qed

lemma txt_while_stuck:
  assumes "txt_while f st = Some r"
  shows "\<not> (\<exists>l ls. rest st = l # ls \<and> stuck_line l)"
  using assms
proof (induction rule: txt_while.raw_induct [rotated 1, consumes 1])
  case (1 loop f st r)
  show ?case
  proof
    assume "\<exists>l ls. rest st = l # ls \<and> stuck_line l"
    then obtain l ls where r: "rest st = l # ls" and s: "stuck_line l"
      by blast
    have st: "st = \<lparr>rest = l # ls, in_list = in_list st, html_parts = html_parts st\<rparr>"
      using r by simp
    have "rest (txt_step f st) = l # ls"
      by (subst st) (simp add: txt_step_stuck [OF s])
    moreover from 1(2) r have "loop f (txt_step f st) = Some r"
      by simp
    ultimately show False
      using 1(1) s by blast
  qed
qed

lemma txt_while_stuck_None:
  "stuck_line l \<Longrightarrow> rest st = l # ls \<Longrightarrow> txt_while f st = None"
  using txt_while_stuck [of f st] by (cases "txt_while f st") auto

text \<open>
  C1. The claim is that the scanner returns for every body text, and that a line like
  \<^verbatim>\<open>[SLIKA: x.png\<close> without its closing bracket is taken as paragraph text with the
  cursor moving on. On that very body the loop never ends: the paragraph loop stops at
  the line at once, because it begins with \<^verbatim>\<open>[SLIKA:\<close>, an empty paragraph is emitted and
  the cursor stays where it was. The scanner returns nothing, whatever the folder.
\<close>

theorem C1_unclosed_directive_never_returns:
  "txt_to_html_content (lit ''[SLIKA: x.png'') folder_name = None"
proof -
  have "stuck_line (lit ''[SLIKA: x.png'')"
    by (simp add: stuck_line_def startswith_def strip_def isspace_def re_match_def img_re_def
        chars_def cat_def dot_def)
  then have "txt_while folder_name
      \<lparr>rest = [lit ''[SLIKA: x.png''], in_list = False, html_parts = []\<rparr> = None"
    by (rule txt_while_stuck_None) simp
  moreover have "splitlines (strip (lit ''[SLIKA: x.png'')) = [lit ''[SLIKA: x.png'']"
    by (simp add: splitlines_def strip_def isspace_def is_linebreak_def)
  ultimately show ?thesis
    by (simp add: txt_to_html_content_def)
qed

section \<open>Facts about the matcher\<close>

lemma star_lazy_Some: "k s = Some x \<Longrightarrow> star_lazy p s k = Some x"
  by (cases s) simp_all

lemma star_lazy_skip:
  "\<forall>c\<in>set u. p c \<Longrightarrow> \<forall>i<length u. k (drop i u @ r) = None \<Longrightarrow>
   star_lazy p (u @ r) k = star_lazy p r k"
proof (induction u)
  case Nil
  then show ?case by simp
next
  case (Cons c u)
  from Cons.prems(2) have "k (drop 0 (c # u) @ r) = None"
    by blast
  then have k0: "k (c # u @ r) = None"
    by simp
  have "\<forall>i<length u. k (drop i u @ r) = None"
  proof (intro allI impI)
    fix i
    assume "i < length u"
    then have "k (drop (Suc i) (c # u) @ r) = None"
      using Cons.prems(2) by (metis Suc_less_eq length_Cons)
    then show "k (drop i u @ r) = None"
      by simp
  qed
  with Cons show ?case
    using k0 by simp
qed

lemma rmatch_cat_Nil: "rmatch (cat []) s g k = k s g"
  by (simp add: cat_def)

lemma rmatch_cat_Cons:
  "rmatch (cat (r # rs)) s g k = rmatch r s g (\<lambda>s' g'. rmatch (cat rs) s' g' k)"
  by (simp add: cat_def)

lemma rmatch_chars:
  "rmatch (chars w) s g k = (if startswith (lit w) s then k (drop (length w) s) g else None)"
proof (induction w arbitrary: s)
  case Nil
  then show ?case
    by (simp add: chars_def cat_def startswith_Nil)
next
  case (Cons c w)
  have "rmatch (chars (c # w)) s g k =
        rmatch (Chr (of_char c)) s g (\<lambda>s' g'. rmatch (chars w) s' g' k)"
    by (simp add: chars_def cat_def)
  then show ?case
    by (cases s) (simp_all add: Cons startswith_Cons)
qed

text \<open>
  A lazy group over the text \<open>x\<close>: when the rest of the pattern fails at every earlier
  end of the group and succeeds behind \<open>x\<close>, the group takes \<open>x\<close>.
\<close>

lemma rmatch_grp_lazy:
  assumes x: "x \<noteq> []" and p: "\<forall>c\<in>set x. p c"
    and fail: "\<And>i g'. 0 < i \<Longrightarrow> i < length x \<Longrightarrow> k (drop i x @ r) g' = None"
    and ok: "k r (g(n := Some x)) = Some y"
  shows "rmatch (Grp n (PlusLazy p)) (x @ r) g k = Some y"
proof -
  from x obtain c u where xc: "x = c # u"
    by (cases x) auto
  define K where
    "K = (\<lambda>s'. k s' (g(n := Some (take (length (x @ r) - length s') (x @ r)))))"
  have pc: "p c" and pu: "\<forall>c\<in>set u. p c"
    using p xc by auto
  have "\<forall>i<length u. K (drop i u @ r) = None"
  proof (intro allI impI)
    fix i
    assume i: "i < length u"
    have "drop i u = drop (Suc i) x"
      by (simp add: xc)
    moreover have "k (drop (Suc i) x @ r)
        (g(n := Some (take (length (x @ r) - length (drop (Suc i) x @ r)) (x @ r)))) = None"
      using i by (intro fail) (simp_all add: xc)
    ultimately show "K (drop i u @ r) = None"
      by (simp add: K_def)
  qed
  then have "star_lazy p (u @ r) K = star_lazy p r K"
    by (rule star_lazy_skip [OF pu])
  also have "\<dots> = Some y"
    by (rule star_lazy_Some) (simp add: K_def ok)
  finally have "star_lazy p (u @ r) K = Some y" .
  moreover have "rmatch (Grp n (PlusLazy p)) (x @ r) g k = star_lazy p (u @ r) K"
    using pc by (simp add: xc K_def)
  ultimately show ?thesis
    by simp
qed

lemma re_sub_unchanged:
  assumes "\<And>c cs. c \<noteq> a \<Longrightarrow> re_match r (c # cs) = None" and "re_match r [] = None"
  shows "a \<notin> set s \<Longrightarrow> re_sub r f s = s"
proof (induction s)
  case Nil
  then show ?case
    using assms(2) by (simp add: re_sub_Nil)
next
  case (Cons c s)
  then have "re_match r (c # s) = None"
    using assms(1) by auto
  then show ?case
    using Cons by (subst re_sub.simps) simp
qed

section \<open>The inline formatter\<close>

lemma italic_unchanged: "of_char CHR ''*'' \<notin> set s \<Longrightarrow> re_sub italic_re f s = s"
  by (rule re_sub_unchanged [where a = "of_char CHR ''*''"])
     (simp_all add: re_match_def italic_re_def chars_def cat_def)

lemma link_unchanged: "of_char CHR ''['' \<notin> set s \<Longrightarrow> re_sub link_re f s = s"
  by (rule re_sub_unchanged [where a = "of_char CHR ''[''"])
     (simp_all add: re_match_def link_re_def chars_def cat_def)






section \<open>Blocks of the scanner\<close>



lemma img_re_first: "c \<noteq> of_char CHR ''['' \<Longrightarrow> re_match img_re (c # cs) = None"
  by (simp add: re_match_def img_re_def rmatch_cat_Cons rmatch_chars startswith_Cons)


lemma inline_plain:
  "of_char CHR ''*'' \<notin> set s \<Longrightarrow> of_char CHR ''['' \<notin> set s \<Longrightarrow> inline_format s = s"
proof -
  assume a: "of_char CHR ''*'' \<notin> set s" and b: "of_char CHR ''['' \<notin> set s"
  have "re_sub bold_re bold_repl s = s"
    using a by (intro re_sub_unchanged [where a = "of_char CHR ''*''"])
       (simp_all add: re_match_def bold_re_def chars_def cat_def)
  then show ?thesis
    by (simp add: inline_format_def italic_unchanged [OF a] link_unchanged [OF b])
qed

lemma strip_plain: "s \<noteq> [] \<Longrightarrow> \<not> isspace (hd s) \<Longrightarrow> \<not> isspace (last s) \<Longrightarrow> strip s = s"
proof -
  assume a: "s \<noteq> []" "\<not> isspace (hd s)" "\<not> isspace (last s)"
  have dw: "dropWhile P xs = xs" if "xs \<noteq> []" "\<not> P (hd xs)" for P and xs :: str
    using that by (cases xs) auto
  have "dropWhile isspace s = s"
    using a by (intro dw)
  moreover have "dropWhile isspace (rev s) = rev s"
    using a by (intro dw) (simp_all add: hd_rev)
  ultimately show ?thesis
    by (simp add: strip_def)
qed














section \<open>The image directive\<close>

lemma star_greedy_all:
  "\<forall>c\<in>set w. p c \<Longrightarrow> star_greedy p r k = Some y \<Longrightarrow> star_greedy p (w @ r) k = Some y"
  by (induction w) simp_all

lemma star_greedy_stop: "r = [] \<or> \<not> p (hd r) \<Longrightarrow> star_greedy p r k = k r"
  by (cases r) auto

lemma star_greedy_fail:
  "\<forall>c\<in>set w. p c \<Longrightarrow> \<not> p c0 \<Longrightarrow> \<forall>i\<le>length w. k (drop i w @ c0 # z) = None \<Longrightarrow>
   star_greedy p (w @ c0 # z) k = None"
proof (induction w)
  case Nil
  then show ?case by simp
next
  case (Cons c w)
  have "\<forall>i\<le>length w. k (drop i w @ c0 # z) = None"
  proof (intro allI impI)
    fix i assume "i \<le> length w"
    then have "k (drop (Suc i) (c # w) @ c0 # z) = None"
      using Cons.prems(3) by (metis Suc_le_mono length_Cons)
    then show "k (drop i w @ c0 # z) = None" by simp
  qed
  then have "star_greedy p (w @ c0 # z) k = None"
    using Cons by simp
  moreover have "k (c # w @ c0 # z) = None"
    using Cons.prems(3) by (metis append_Cons drop0 le0)
  ultimately show ?case by simp
qed

lemma blank_prefix:
  assumes "u \<noteq> []" and "\<not> isspace (last u)"
  obtains w c0 z where "u = w @ c0 # z" and "blanks w" and "\<not> isspace c0" and "c0 \<in> set u"
proof -
  have "dropWhile isspace u \<noteq> []"
  proof
    assume "dropWhile isspace u = []"
    then have "\<forall>c\<in>set u. isspace c" by (simp add: dropWhile_eq_Nil_conv)
    then show False using assms by (meson last_in_set)
  qed
  then obtain c0 z where d: "dropWhile isspace u = c0 # z" by (cases "dropWhile isspace u") auto
  have "\<not> isspace c0" using d by (metis hd_dropWhile list.sel(1) list.distinct(1))
  moreover have "u = takeWhile isspace u @ c0 # z" using d by (metis takeWhile_dropWhile_id)
  moreover have "blanks (takeWhile isspace u)" by (auto simp: blanks_def dest: set_takeWhileD)
  moreover have "c0 \<in> set u" using d by (metis list.set_intros(1) set_dropWhileD)
  ultimately show ?thesis using that by blast
qed

lemma K5_unfold:
  "K5 s g = star_greedy isspace s (\<lambda>s'. if startswith (lit '']'') s' then Some (drop (length '']'') s', g) else None)"
  by (simp add: K5_def rmatch_cat_Cons rmatch_cat_Nil rmatch_chars)

lemma not_space_bracket: "\<not> isspace (of_char CHR '']'')" "\<not> isspace (of_char CHR ''|'')"
  by (simp_all add: isspace_def)

lemma K5_fail:
  assumes "blanks w" "\<not> isspace c0" "c0 \<noteq> of_char CHR '']''"
  shows "K5 (w @ c0 # z) g = None"
  unfolding K5_unfold
proof (rule star_greedy_fail)
  show "\<forall>c\<in>set w. isspace c" using assms(1) by (simp add: blanks_def)
  show "\<not> isspace c0" by fact
  show "\<forall>i\<le>length w. (if startswith (lit '']'') (drop i w @ c0 # z) then Some (drop (length '']'') (drop i w @ c0 # z), g) else None) = None"
  proof (intro allI impI)
    fix i
    have "\<not> startswith (lit '']'') (drop i w @ c0 # z)"
    proof (cases "drop i w")
      case Nil
      then show ?thesis using assms(3) by (simp add: startswith_Cons)
    next
      case (Cons d v)
      then have "d \<in> set w" by (metis in_set_dropD list.set_intros(1))
      then have "isspace d" using assms(1) by (simp add: blanks_def)
      then have "d \<noteq> of_char CHR '']''" using not_space_bracket by auto
      then show ?thesis by (simp add: Cons startswith_Cons)
    qed
    then show "(if startswith (lit '']'') (drop i w @ c0 # z) then Some (drop (length '']'') (drop i w @ c0 # z), g) else None) = None"
      by simp
  qed
qed

lemma K5_ok:
  assumes "blanks w"
  shows "K5 (w @ lit '']'' @ t) g = Some (t, g)"
  unfolding K5_unfold
proof (rule star_greedy_all)
  show "\<forall>c\<in>set w. isspace c" using assms by (simp add: blanks_def)
  show "star_greedy isspace (lit '']'' @ t) (\<lambda>s'. if startswith (lit '']'') s' then Some (drop (length '']'') s', g) else None) = Some (t, g)"
    by (simp add: not_space_bracket[simplified] startswith_Cons startswith_Nil isspace_def)
qed


lemma K3_unfold:
  "K3 s g = star_greedy isspace s
     (\<lambda>s1. case rmatch cap_re s1 g K5 of Some x \<Rightarrow> Some x | None \<Rightarrow> K5 s1 g)"
  unfolding K3_def K5_def
  by (simp add: rmatch_cat_Cons rmatch_cat_Nil cong: option.case_cong)

lemma cap_re_first: "\<not> startswith (lit ''|'') s \<Longrightarrow> rmatch cap_re s g k = None"
  by (simp add: cap_re_def rmatch_cat_Cons rmatch_chars)

lemma K3_fail:
  assumes "blanks w" "\<not> isspace c0" "c0 \<noteq> of_char CHR '']''" "c0 \<noteq> of_char CHR ''|''"
  shows "K3 (w @ c0 # z) g = None"
  unfolding K3_unfold
proof (rule star_greedy_fail)
  show "\<forall>c\<in>set w. isspace c" using assms(1) by (simp add: blanks_def)
  show "\<not> isspace c0" by fact
  show "\<forall>i\<le>length w. (case rmatch cap_re (drop i w @ c0 # z) g K5 of Some x \<Rightarrow> Some x
          | None \<Rightarrow> K5 (drop i w @ c0 # z) g) = None"
  proof (intro allI impI)
    fix i
    have b: "blanks (drop i w)"
      using assms(1) by (auto simp: blanks_def dest: in_set_dropD)
    have "\<not> startswith (lit ''|'') (drop i w @ c0 # z)"
    proof (cases "drop i w")
      case Nil
      then show ?thesis using assms(4) by (simp add: startswith_Cons)
    next
      case (Cons d v)
      then have "isspace d" using b by (simp add: blanks_def)
      then have "d \<noteq> of_char CHR ''|''" using not_space_bracket by auto
      then show ?thesis by (simp add: Cons startswith_Cons)
    qed
    then have "rmatch cap_re (drop i w @ c0 # z) g K5 = None"
      by (rule cap_re_first)
    moreover have "K5 (drop i w @ c0 # z) g = None"
      using b assms(2,3) by (rule K5_fail)
    ultimately show "(case rmatch cap_re (drop i w @ c0 # z) g K5 of Some x \<Rightarrow> Some x
          | None \<Rightarrow> K5 (drop i w @ c0 # z) g) = None"
      by simp
  qed
qed

lemma K3_ok_plain:
  assumes "blanks w"
  shows "K3 (w @ lit '']'' @ t) g = Some (t, g)"
  unfolding K3_unfold
proof (rule star_greedy_all)
  show "\<forall>c\<in>set w. isspace c" using assms by (simp add: blanks_def)
  have "rmatch cap_re (lit '']'' @ t) g K5 = None"
    by (rule cap_re_first) (simp add: startswith_Cons)
  moreover have "K5 ([] @ lit '']'' @ t) g = Some (t, g)"
    by (rule K5_ok) (simp add: blanks_def)
  ultimately have "(case rmatch cap_re (lit '']'' @ t) g K5 of Some x \<Rightarrow> Some x
          | None \<Rightarrow> K5 (lit '']'' @ t) g) = Some (t, g)"
    by simp
  then show "star_greedy isspace (lit '']'' @ t)
      (\<lambda>s1. case rmatch cap_re s1 g K5 of Some x \<Rightarrow> Some x | None \<Rightarrow> K5 s1 g) = Some (t, g)"
    by (subst star_greedy_stop) (simp_all add: isspace_def)
qed

lemma directive_dots: "directive_text x \<Longrightarrow> \<forall>c\<in>set x. dot c"
  by (simp add: directive_text_def dot_def)

lemma directive_suffix:
  assumes "directive_text x" "i < length x"
  obtains w c0 z where "drop i x = w @ c0 # z" and "blanks w" and "\<not> isspace c0"
    and "c0 \<noteq> of_char CHR '']''" and "c0 \<noteq> of_char CHR ''|''"
proof -
  have ne: "drop i x \<noteq> []" using assms(2) by simp
  then have "last (drop i x) = last x" by (simp add: assms(2) last_drop)
  then have "\<not> isspace (last (drop i x))" using assms(1) by (simp add: directive_text_def)
  with ne obtain w c0 z where d: "drop i x = w @ c0 # z" "blanks w" "\<not> isspace c0" "c0 \<in> set (drop i x)"
    by (rule blank_prefix)
  then have "c0 \<in> set x" by (meson in_set_dropD)
  then have "c0 \<noteq> of_char CHR '']''" "c0 \<noteq> of_char CHR ''|''"
    using assms(1) by (auto simp: directive_text_def)
  with d show ?thesis using that by blast
qed

lemma caption_group:
  assumes c: "directive_text caption" and w4: "blanks w4"
  shows "rmatch (Grp 2 (PlusLazy dot)) (caption @ (w4 @ lit '']'' @ t)) g K5 =
         Some (t, g(2 := Some caption))"
proof (rule rmatch_grp_lazy)
  show "caption \<noteq> []" using c by (simp add: directive_text_def)
  show "\<forall>c\<in>set caption. dot c" using c by (rule directive_dots)
  show "K5 (w4 @ lit '']'' @ t) (g(2 := Some caption)) = Some (t, g(2 := Some caption))"
    using w4 by (rule K5_ok)
next
  fix i g'
  assume "0 < i" "i < length caption"
  with c obtain w c0 z where d: "drop i caption = w @ c0 # z" "blanks w" "\<not> isspace c0"
    "c0 \<noteq> of_char CHR '']''"
    by (meson directive_suffix)
  have "K5 (w @ c0 # (z @ w4 @ lit '']'' @ t)) g' = None"
    using d(2-4) by (rule K5_fail)
  then show "K5 (drop i caption @ w4 @ lit '']'' @ t) g' = None"
    by (simp add: d(1))
qed

lemma cap_re_ok:
  assumes c: "directive_text caption" and w3: "blanks w3" and w4: "blanks w4"
  shows "rmatch cap_re (lit ''|'' @ w3 @ caption @ w4 @ lit '']'' @ t) g K5 =
         Some (t, g(2 := Some caption))"
proof -
  have hd: "\<not> isspace (hd (caption @ w4 @ lit '']'' @ t))"
    using c by (simp add: directive_text_def)
  have "star_greedy isspace (w3 @ (caption @ w4 @ lit '']'' @ t))
          (\<lambda>s'. rmatch (Grp 2 (PlusLazy dot)) s' g K5) = Some (t, g(2 := Some caption))"
  proof (rule star_greedy_all)
    show "\<forall>c\<in>set w3. isspace c" using w3 by (simp add: blanks_def)
    show "star_greedy isspace (caption @ w4 @ lit '']'' @ t)
            (\<lambda>s'. rmatch (Grp 2 (PlusLazy dot)) s' g K5) = Some (t, g(2 := Some caption))"
      using hd caption_group [OF c w4, of t g] by (subst star_greedy_stop) simp_all
  qed
  moreover have "rmatch cap_re (lit ''|'' @ w3 @ caption @ w4 @ lit '']'' @ t) g K5 =
      star_greedy isspace (w3 @ (caption @ w4 @ lit '']'' @ t))
          (\<lambda>s'. rmatch (Grp 2 (PlusLazy dot)) s' g K5)"
    unfolding cap_re_def
    by (simp only: rmatch_cat_Cons rmatch_cat_Nil rmatch_chars rmatch.simps(3))
       (simp add: startswith_Cons startswith_Nil)
  ultimately show ?thesis by simp
qed

lemma K3_ok_caption:
  assumes c: "directive_text caption" and w2: "blanks w2" and w3: "blanks w3" and w4: "blanks w4"
  shows "K3 (w2 @ lit ''|'' @ w3 @ caption @ w4 @ lit '']'' @ t) g = Some (t, g(2 := Some caption))"
  unfolding K3_unfold
proof (rule star_greedy_all)
  show "\<forall>c\<in>set w2. isspace c" using w2 by (simp add: blanks_def)
  have "rmatch cap_re (lit ''|'' @ w3 @ caption @ w4 @ lit '']'' @ t) g K5 = Some (t, g(2 := Some caption))"
    using c w3 w4 by (rule cap_re_ok)
  then show "star_greedy isspace (lit ''|'' @ w3 @ caption @ w4 @ lit '']'' @ t)
      (\<lambda>s1. case rmatch cap_re s1 g K5 of Some x \<Rightarrow> Some x | None \<Rightarrow> K5 s1 g) =
      Some (t, g(2 := Some caption))"
    by (subst star_greedy_stop) (simp_all add: isspace_def)
qed

lemma img_match_gen:
  assumes f: "directive_text file" and w1: "blanks w1"
    and ok: "K3 r ((\<lambda>n. None)(1 := Some file)) = Some y"
  shows "re_match img_re (lit ''[SLIKA:'' @ w1 @ file @ r) = Some y"
proof -
  have grp: "rmatch (Grp 1 (PlusLazy dot)) (file @ r) (\<lambda>n. None) K3 = Some y"
  proof (rule rmatch_grp_lazy)
    show "file \<noteq> []" using f by (simp add: directive_text_def)
    show "\<forall>c\<in>set file. dot c" using f by (rule directive_dots)
    show "K3 r ((\<lambda>n. None)(1 := Some file)) = Some y" by fact
  next
    fix i g'
    assume "0 < i" "i < length file"
    with f obtain w c0 z where d: "drop i file = w @ c0 # z" "blanks w" "\<not> isspace c0"
      "c0 \<noteq> of_char CHR '']''" "c0 \<noteq> of_char CHR ''|''"
      by (meson directive_suffix)
    have "K3 (w @ c0 # (z @ r)) g' = None"
      using d(2-5) by (rule K3_fail)
    then show "K3 (drop i file @ r) g' = None"
      by (simp add: d(1))
  qed
  have hd: "\<not> isspace (hd (file @ r))"
    using f by (simp add: directive_text_def)
  have "star_greedy isspace (w1 @ (file @ r)) (\<lambda>s'. rmatch (Grp 1 (PlusLazy dot)) s' (\<lambda>n. None) K3) = Some y"
  proof (rule star_greedy_all)
    show "\<forall>c\<in>set w1. isspace c" using w1 by (simp add: blanks_def)
    show "star_greedy isspace (file @ r) (\<lambda>s'. rmatch (Grp 1 (PlusLazy dot)) s' (\<lambda>n. None) K3) = Some y"
      using hd grp by (subst star_greedy_stop) simp_all
  qed
  moreover have "re_match img_re (lit ''[SLIKA:'' @ w1 @ file @ r) =
      star_greedy isspace (w1 @ (file @ r)) (\<lambda>s'. rmatch (Grp 1 (PlusLazy dot)) s' (\<lambda>n. None) K3)"
    unfolding re_match_def img_re_def K3_def cap_re_def
    by (simp only: rmatch_cat_Cons [of "chars ''[SLIKA:''"] rmatch_cat_Cons [of "Star isspace" "Grp 1 (PlusLazy dot) # _"]
          rmatch_cat_Cons [of "Grp 1 (PlusLazy dot)"] rmatch_chars rmatch.simps(3))
       (simp add: startswith_Cons startswith_Nil)
  ultimately show ?thesis by simp
qed


lemma figure_step:
  assumes m: "re_match img_re (strip line) = Some (t, g)" and ne: "strip line \<noteq> []"
  shows "txt_step f \<lparr>rest = line # after, in_list = il, html_parts = acc\<rparr> =
         \<lparr>rest = after, in_list = False,
          html_parts = close_list il acc @
            figure_parts f (group_or_empty g 1) (group_or_empty g 2)\<rparr>"
  using ne by (simp add: txt_step_def Let_def m)

lemma figure_plain:
  assumes f: "directive_text file" and w1: "blanks w1" and w2: "blanks w2"
    and s: "strip line = lit ''[SLIKA:'' @ w1 @ file @ w2 @ lit '']'' @ trailing"
  shows "txt_step folder \<lparr>rest = line # after, in_list = il, html_parts = acc\<rparr> =
         \<lparr>rest = after, in_list = False,
          html_parts = close_list il acc @ figure_parts folder file []\<rparr>"
proof -
  have "K3 (w2 @ lit '']'' @ trailing) ((\<lambda>n. None)(1 := Some file)) =
        Some (trailing, (\<lambda>n. None)(1 := Some file))"
    using w2 by (rule K3_ok_plain)
  then have "re_match img_re (lit ''[SLIKA:'' @ w1 @ file @ (w2 @ lit '']'' @ trailing)) =
        Some (trailing, (\<lambda>n. None)(1 := Some file))"
    by (rule img_match_gen [OF f w1])
  then have m: "re_match img_re (strip line) = Some (trailing, (\<lambda>n. None)(1 := Some file))"
    by (simp add: s)
  have ne: "strip line \<noteq> []" by (simp add: s)
  show ?thesis
    by (simp add: figure_step [OF m ne] group_or_empty_def)
qed

lemma figure_caption:
  assumes f: "directive_text file" and c: "directive_text caption"
    and w1: "blanks w1" and w2: "blanks w2" and w3: "blanks w3" and w4: "blanks w4"
    and s: "strip line = lit ''[SLIKA:'' @ w1 @ file @ w2 @ lit ''|'' @ w3 @ caption @ w4 @
              lit '']'' @ trailing"
  shows "txt_step folder \<lparr>rest = line # after, in_list = il, html_parts = acc\<rparr> =
         \<lparr>rest = after, in_list = False,
          html_parts = close_list il acc @ figure_parts folder file caption\<rparr>"
proof -
  have "K3 (w2 @ lit ''|'' @ w3 @ caption @ w4 @ lit '']'' @ trailing) ((\<lambda>n. None)(1 := Some file)) =
        Some (trailing, (\<lambda>n. None)(1 := Some file, 2 := Some caption))"
    using c w2 w3 w4 by (rule K3_ok_caption)
  then have "re_match img_re (lit ''[SLIKA:'' @ w1 @ file @
        (w2 @ lit ''|'' @ w3 @ caption @ w4 @ lit '']'' @ trailing)) =
        Some (trailing, (\<lambda>n. None)(1 := Some file, 2 := Some caption))"
    by (rule img_match_gen [OF f w1])
  then have m: "re_match img_re (strip line) =
        Some (trailing, (\<lambda>n. None)(1 := Some file, 2 := Some caption))"
    by (simp add: s)
  have ne: "strip line \<noteq> []" by (simp add: s)
  show ?thesis
    by (simp add: figure_step [OF m ne] group_or_empty_def)
qed

text \<open>
  C10. The image rule matches a prefix of the stripped line only. When the line begins
  with a well-formed directive, with or without a caption, whatever follows the closing
  bracket plays no part: the pass emits the figure for the file (and the caption) and
  moves to the next line, and the trailing text appears nowhere in the output.
\<close>

theorem C10_directive_prefix_only:
  assumes "directive_text img_file" and "directive_text caption"
    and "blanks wa" and "blanks wb" and "blanks wc" and "blanks wd"
  shows
    "(strip ln = lit ''[SLIKA:'' @ wa @ img_file @ wb @ lit '']'' @ trailing \<longrightarrow>
      txt_step folder \<lparr>rest = ln # after, in_list = il, html_parts = acc\<rparr> =
        \<lparr>rest = after, in_list = False,
         html_parts = close_list il acc @ figure_parts folder img_file []\<rparr>) \<and>
     (strip ln = lit ''[SLIKA:'' @ wa @ img_file @ wb @ lit ''|'' @ wc @ caption @ wd @
                   lit '']'' @ trailing \<longrightarrow>
      txt_step folder \<lparr>rest = ln # after, in_list = il, html_parts = acc\<rparr> =
        \<lparr>rest = after, in_list = False,
         html_parts = close_list il acc @ figure_parts folder img_file caption\<rparr>)"
proof (intro conjI impI)
  show "txt_step folder \<lparr>rest = ln # after, in_list = il, html_parts = acc\<rparr> =
        \<lparr>rest = after, in_list = False,
         html_parts = close_list il acc @ figure_parts folder img_file []\<rparr>"
    if "strip ln = lit ''[SLIKA:'' @ wa @ img_file @ wb @ lit '']'' @ trailing"
    using assms(1,3,4) that by (rule figure_plain)
  show "txt_step folder \<lparr>rest = ln # after, in_list = il, html_parts = acc\<rparr> =
        \<lparr>rest = after, in_list = False,
         html_parts = close_list il acc @ figure_parts folder img_file caption\<rparr>"
    if "strip ln = lit ''[SLIKA:'' @ wa @ img_file @ wb @ lit ''|'' @ wc @ caption @ wd @
                   lit '']'' @ trailing"
    using assms that by (rule figure_caption)
qed

theorem C10_witness:
  "txt_step (lit ''post'')
     \<lparr>rest = [lit ''[SLIKA: x.png] and more''], in_list = False, html_parts = []\<rparr> =
     \<lparr>rest = [], in_list = False,
      html_parts =
        [lit ''        <figure class=\"blog-figure\">'',
         lit ''          <img src=\"post/x.png\" alt=\"\" loading=\"lazy\">'',
         lit ''        </figure>'']\<rparr> \<and>
   txt_step (lit ''post'')
     \<lparr>rest = [lit ''[SLIKA: x.png | My caption] and more''], in_list = False,
      html_parts = []\<rparr> =
     \<lparr>rest = [], in_list = False,
      html_parts =
        [lit ''        <figure class=\"blog-figure\">'',
         lit ''          <img src=\"post/x.png\" alt=\"My caption\" loading=\"lazy\">'',
         lit ''          <figcaption>My caption</figcaption>'',
         lit ''        </figure>'']\<rparr>"
  using
    C10_directive_prefix_only [where img_file = "lit ''x.png''" and caption = "lit ''My caption''"
      and wa = "lit '' ''" and wb = "[]" and wc = "[]" and wd = "[]"
      and ln = "lit ''[SLIKA: x.png] and more''" and trailing = "lit '' and more''"
      and folder = "lit ''post''" and after = "[]" and il = False and acc = "[]"]
    C10_directive_prefix_only [where img_file = "lit ''x.png''" and caption = "lit ''My caption''"
      and wa = "lit '' ''" and wb = "lit '' ''" and wc = "lit '' ''" and wd = "[]"
      and ln = "lit ''[SLIKA: x.png | My caption] and more''"
      and trailing = "lit '' and more''"
      and folder = "lit ''post''" and after = "[]" and il = False and acc = "[]"]
  by (simp add: directive_text_def blanks_def isspace_def strip_def close_list_def
      figure_parts_def)

section \<open>The metadata parser\<close>

lemma contains_single: "contains [a] s \<longleftrightarrow> a \<in> set s"
  by (induction s) (auto simp: startswith_Cons startswith_Nil)

lemma split_from_single:
  "a \<in> set s \<Longrightarrow>
   split_from [a] pre s = [pre @ takeWhile (\<lambda>c. c \<noteq> a) s, tl (dropWhile (\<lambda>c. c \<noteq> a) s)]"
  by (induction s arbitrary: pre) (auto simp: startswith_Cons startswith_Nil)

lemma header_entries_Nil: "header_entries U [] = []"
  by (simp add: header_entries_def)

lemma header_entries_Cons:
  "header_entries U (l # ls) =
     (if of_char CHR '':'' \<in> set (strip l) then line_entry U (strip l) # header_entries U ls
      else header_entries U ls)"
  by (simp add: header_entries_def)

lemma header_entries_append:
  "header_entries U (xs @ ys) = header_entries U xs @ header_entries U ys"
  by (simp add: header_entries_def)

lemma metadata_loop_entries:
  "metadata_loop U ls meta = Inr (meta ++ map_of (rev (header_entries U ls)))"
proof (induction ls arbitrary: meta)
  case Nil
  then show ?case by (simp add: header_entries_Nil)
next
  case (Cons l ls)
  show ?case
  proof (cases "of_char CHR '':'' \<in> set (strip l)")
    case True
    then have sp: "split1 (lit '':'') (strip l) =
        [takeWhile (\<lambda>c. c \<noteq> of_char CHR '':'') (strip l),
         tl (dropWhile (\<lambda>c. c \<noteq> of_char CHR '':'') (strip l))]"
      using split_from_single [of "of_char CHR '':''" "strip l" "[]"] by (simp add: split1_def)
    have c: "contains (lit '':'') (strip l)"
      using True contains_single [of "of_char CHR '':''" "strip l"] by simp
    obtain k v where kv: "line_entry U (strip l) = (k, v)" by (cases "line_entry U (strip l)")
    then have k: "k = str_upper U (strip (takeWhile (\<lambda>c. c \<noteq> of_char CHR '':'') (strip l)))"
      and v: "v = strip (tl (dropWhile (\<lambda>c. c \<noteq> of_char CHR '':'') (strip l)))"
      by (simp_all add: line_entry_def)
    have "metadata_loop U (l # ls) meta = metadata_loop U ls (meta(k \<mapsto> v))"
      using c sp k v by (simp add: Let_def)
    also have "\<dots> = Inr (meta(k \<mapsto> v) ++ map_of (rev (header_entries U ls)))"
      by (rule Cons.IH)
    also have "meta(k \<mapsto> v) ++ map_of (rev (header_entries U ls)) =
        meta ++ map_of (rev (header_entries U (l # ls)))"
      using True kv by (simp add: header_entries_Cons map_add_assoc [symmetric] del: map_add_assoc)
        (simp add: map_add_def fun_eq_iff split: option.splits)
    finally show ?thesis .
  next
    case False
    then have c: "\<not> contains (lit '':'') (strip l)"
      using contains_single [of "of_char CHR '':''" "strip l"] by simp
    show ?thesis
      using c False by (simp add: Let_def Cons.IH header_entries_Cons)
  qed
qed

lemma parse_metadata_entries:
  "parse_metadata U h = Inr (map_of (rev (header_entries U (splitlines (strip h)))))"
  by (simp add: parse_metadata_def metadata_loop_entries)

lemma upper_NASLOV: "str_upper U (lit ''NASLOV'') = lit ''NASLOV''"
  by (simp add: str_upper_def upper_char_def)

lemma strip_NASLOV: "strip (lit ''NASLOV'') = lit ''NASLOV''"
  by (simp add: strip_def isspace_def)

lemma naslov_entry:
  assumes "strip l = lit ''NASLOV:'' @ x"
  shows "header_entries U [l] = [(lit ''NASLOV'', strip x)]"
  using assms upper_NASLOV [of U] strip_NASLOV
  by (simp add: header_entries_Cons header_entries_Nil line_entry_def)

lemma naslov_last_wins:
  assumes ls: "splitlines (strip h) = pre @ l # post"
    and l: "strip l = lit ''NASLOV:'' @ x"
    and post: "lit ''NASLOV'' \<notin> fst ` set (header_entries U post)"
  shows "parse_metadata U h = Inr (map_of (rev (header_entries U (splitlines (strip h))))) \<and>
         map_of (rev (header_entries U (splitlines (strip h)))) (lit ''NASLOV'') = Some (strip x)"
proof -
  have e: "header_entries U (splitlines (strip h)) =
      header_entries U pre @ (lit ''NASLOV'', strip x) # header_entries U post"
    using header_entries_append [of U pre "[l] @ post"] header_entries_append [of U "[l]" post]
      naslov_entry [OF l, of U] by (simp add: ls)
  have "map_of (rev (header_entries U post)) (lit ''NASLOV'') = None"
    using post by (simp add: map_of_eq_None_iff)
  then have "map_of (rev (header_entries U (splitlines (strip h)))) (lit ''NASLOV'') = Some (strip x)"
    unfolding e by (simp add: map_add_def)
  then show ?thesis by (simp add: parse_metadata_entries)
qed

lemma duplicate_title:
  "parse_metadata U (lit ''NASLOV: A\<newline>naslov: B'') = Inr m \<Longrightarrow> m (lit ''NASLOV'') = Some (lit ''B'')"
  by (simp add: parse_metadata_entries)
     (auto simp: splitlines_def strip_def isspace_def is_linebreak_def header_entries_def
        line_entry_def str_upper_def upper_char_def)

text \<open>
  C6. The parser never fails, and its result is the mapping of the header's entries
  (see \<open>header_entries\<close>: each stripped line with a colon, split at the first colon, both
  sides stripped, the key uppercased), a later entry replacing an earlier one with the
  same key. When a line of the header is \<^verbatim>\<open>NASLOV:\<close> followed by a text \<open>x\<close> and no later
  line has the key \<^verbatim>\<open>NASLOV\<close>, the result maps \<^verbatim>\<open>NASLOV\<close> to \<open>x\<close> stripped. Of the two
  titles in \<^verbatim>\<open>NASLOV: A\<close>, \<^verbatim>\<open>naslov: B\<close> the second one is kept.
\<close>

theorem C6_parse_metadata:
  "parse_metadata U h = Inr (map_of (rev (header_entries U (splitlines (strip h))))) \<and>
   (splitlines (strip h) = earlier @ l # later \<longrightarrow> strip l = lit ''NASLOV:'' @ x \<longrightarrow>
    lit ''NASLOV'' \<notin> fst ` set (header_entries U later) \<longrightarrow>
    (\<exists>meta. parse_metadata U h = Inr meta \<and> meta (lit ''NASLOV'') = Some (strip x))) \<and>
   (\<exists>meta. parse_metadata U (lit ''NASLOV: A\<newline>naslov: B'') = Inr meta \<and>
      meta (lit ''NASLOV'') = Some (lit ''B''))"
proof (intro conjI impI)
  show "parse_metadata U h = Inr (map_of (rev (header_entries U (splitlines (strip h)))))"
    by (rule parse_metadata_entries)
  show "\<exists>meta. parse_metadata U h = Inr meta \<and> meta (lit ''NASLOV'') = Some (strip x)"
    if "splitlines (strip h) = earlier @ l # later" and "strip l = lit ''NASLOV:'' @ x"
      and "lit ''NASLOV'' \<notin> fst ` set (header_entries U later)"
    using naslov_last_wins [OF that] by blast
  show "\<exists>meta. parse_metadata U (lit ''NASLOV: A\<newline>naslov: B'') = Inr meta \<and>
      meta (lit ''NASLOV'') = Some (lit ''B'')"
    using duplicate_title [of U] parse_metadata_entries [of U "lit ''NASLOV: A\<newline>naslov: B''"]
    by blast
qed

theorem C6_witness:
  "\<exists>meta. parse_metadata plain_unicode (lit ''NASLOV: Hello\<newline>DATUM: 2026-02-20'') = Inr meta \<and>
     meta (lit ''NASLOV'') = Some (lit ''Hello'')"
  using C6_parse_metadata [where U = "plain_unicode"
      and h = "lit ''NASLOV: Hello\<newline>DATUM: 2026-02-20''" and earlier = "[]"
      and l = "lit ''NASLOV: Hello''" and later = "[lit ''DATUM: 2026-02-20'']"
      and x = "lit '' Hello''"]
  by (simp add: splitlines_def strip_def isspace_def is_linebreak_def header_entries_def
      line_entry_def str_upper_def upper_char_def)

section \<open>The build\<close>

lemma one_paragraph:
  assumes p: "is_para_line l" and s: "strip l \<noteq> []"
    and i: "of_char CHR ''*'' \<notin> set (strip l)" "of_char CHR ''['' \<notin> set (strip l)"
  shows "txt_while f \<lparr>rest = [l], in_list = False, html_parts = []\<rparr> =
         Some \<lparr>rest = [], in_list = False,
               html_parts = [lit ''        <p>'' @ strip l @ lit ''</p>'']\<rparr>"
proof -
  from s obtain c cs where sc: "strip l = c # cs" by (cases "strip l") auto
  have c: "c \<noteq> of_char CHR ''[''" using i(2) sc by auto
  have img: "re_match img_re (strip l) = None"
    using c by (simp add: sc img_re_first)
  have brk: "\<not> para_break (strip l)" using p by (simp add: is_para_line_def)
  then have n: "\<not> startswith (lit ''## '') (strip l)" "\<not> startswith (lit ''### '') (strip l)"
    "\<not> startswith (lit ''> '') (strip l)" "\<not> startswith (lit ''- '') (strip l)"
    by (simp_all add: para_break_def)
  have "txt_step f \<lparr>rest = [l], in_list = False, html_parts = []\<rparr> =
      \<lparr>rest = [], in_list = False, html_parts = [lit ''        <p>'' @ strip l @ lit ''</p>'']\<rparr>"
    unfolding txt_step_def Let_def
    using img n p s by (simp add: close_list_def inline_plain [OF i])
  then show ?thesis
    by (subst txt_while_go, simp, simp add: txt_while_stop)
qed

lemma text_body: "txt_to_html_content (lit ''\<newline>text'') f = Some (lit ''        <p>text</p>'')"
proof -
  have l: "splitlines (strip (lit ''\<newline>text'')) = [lit ''text'']"
    by (simp add: splitlines_def strip_def isspace_def is_linebreak_def)
  have s: "strip (lit ''text'') = lit ''text''"
    by (simp add: strip_def isspace_def)
  have p: "is_para_line (lit ''text'')"
    unfolding is_para_line_def para_break_def s
    by (simp add: startswith_def img_prefix_None)
  have "txt_while f \<lparr>rest = [lit ''text''], in_list = False, html_parts = []\<rparr> =
         Some \<lparr>rest = [], in_list = False,
               html_parts = [lit ''        <p>'' @ strip (lit ''text'') @ lit ''</p>'']\<rparr>"
    using s by (intro one_paragraph [OF p]) simp_all
  then show ?thesis
    unfolding txt_to_html_content_def l using s by (simp add: close_list_def)
qed

lemma bad_date: "format_date_hr U (lit ''20.02.2026'') = Inl ValueError"
  by (simp add: format_date_hr_def strptime_def strip_def isspace_def digit_value_def)

lemma bad_date_meta:
  "parse_metadata U (lit ''NASLOV: A\<newline>DATUM: 20.02.2026\<newline>'') =
   Inr (map_of [(lit ''DATUM'', lit ''20.02.2026''), (lit ''NASLOV'', lit ''A'')])"
  by (simp add: parse_metadata_entries)
     (simp add: splitlines_def strip_def isspace_def is_linebreak_def header_entries_def
        line_entry_def str_upper_def upper_char_def)

lemma bad_date_split:
  "contains (lit ''---'') (lit ''NASLOV: A\<newline>DATUM: 20.02.2026\<newline>---\<newline>text'') \<and>
   split1 (lit ''---'') (lit ''NASLOV: A\<newline>DATUM: 20.02.2026\<newline>---\<newline>text'') =
     [lit ''NASLOV: A\<newline>DATUM: 20.02.2026\<newline>'', lit ''\<newline>text'']"
  by (simp add: split1_def startswith_def)

lemma bad_date_step:
  "build_step U \<lparr>name = lit ''post'', is_dir = True,
       sadrzaj = Some (lit ''NASLOV: A\<newline>DATUM: 20.02.2026\<newline>---\<newline>text''), first_image = []\<rparr> st =
   Some (Inl ValueError)"
  using bad_date_split bad_date_meta [of U] text_body [of "lit ''post''"] bad_date [of U]
  by (simp add: build_step_def startswith_def skip_dirs_def generate_html_def meta_get_def Let_def)

lemma bad_date_build:
  "build_blog U [\<lparr>name = lit ''post'', is_dir = True,
       sadrzaj = Some (lit ''NASLOV: A\<newline>DATUM: 20.02.2026\<newline>---\<newline>text''), first_image = []\<rparr>] existing_posts =
   Some (Inl ValueError)"
  using bad_date_step [of U "\<lparr>posts = [], generated_slugs = {}, written = [], warnings = []\<rparr>"]
  by (simp add: build_blog_def)

lemma split_from_two:
  "contains sep s \<Longrightarrow> sep \<noteq> [] \<Longrightarrow> \<exists>a b. split_from sep pre s = [a, b]"
  by (induction s arbitrary: pre) auto

lemma split1_two: "contains sep s \<Longrightarrow> sep \<noteq> [] \<Longrightarrow> \<exists>a b. split1 sep s = [a, b]"
  by (simp add: split1_def split_from_two)

lemma scanned_unfold:
  "scanned it \<Longrightarrow> sadrzaj it = Some raw \<Longrightarrow>
   build_step U it st =
     (let st1 = st\<lparr>generated_slugs := insert (name it) (generated_slugs st)\<rparr> in
      if contains (lit ''---'') raw then
        (case split1 (lit ''---'') raw of
           [header_part, body_part] \<Rightarrow>
             (case parse_metadata U header_part of
                Inl e \<Rightarrow> Some (Inl e)
              | Inr meta \<Rightarrow>
                  if meta_get meta (lit ''NASLOV'') [] = [] then
                    Some (Inr (st1\<lparr>warnings := warnings st1 @ [name it]\<rparr>))
                  else case txt_to_html_content body_part (name it) of
                    None \<Rightarrow> None
                  | Some content_html \<Rightarrow>
                      (case generate_html U meta content_html (name it) of
                         Inl e \<Rightarrow> Some (Inl e)
                       | Inr html \<Rightarrow>
                           (case meta (lit ''NASLOV'') of
                              None \<Rightarrow> Some (Inl KeyError)
                            | Some title \<Rightarrow>
                                Some (Inr (st1\<lparr>
                                  written := written st1 @ [(name it @ lit ''.html'', html)],
                                  posts := posts st1 @
                                    [[(lit ''file'', name it @ lit ''.html''),
                                      (lit ''title'', title),
                                      (lit ''description'', meta_get meta (lit ''OPIS'') []),
                                      (lit ''date'', meta_get meta (lit ''DATUM'') (lit ''2026-01-01'')),
                                      (lit ''image'',
                                        (if meta_get meta (lit ''HERO'') [] \<noteq> []
                                           then name it @ lit ''/'' @ meta_get meta (lit ''HERO'') []
                                         else if first_image it \<noteq> []
                                           then name it @ lit ''/'' @ first_image it
                                         else lit ''../img.png'')),
                                      (lit ''tag'', meta_get meta (lit ''KATEGORIJA'') default_tag)]]\<rparr>)))))
         | _ \<Rightarrow> Some (Inl ValueError))
      else Some (Inr (st1\<lparr>warnings := warnings st1 @ [name it]\<rparr>)))"
  unfolding build_step_def scanned_def Let_def
  by (simp cong: if_cong option.case_cong list.case_cong sum.case_cong)

lemma skip_iff:
  assumes sc: "scanned it" and raw: "sadrzaj it = Some raw"
  shows "build_step U it st = Some (Inr (skipped_state it st)) \<longleftrightarrow>
         (\<not> contains (lit ''---'') raw \<or> header_title U raw = [])"
proof (cases "contains (lit ''---'') raw")
  case False
  then show ?thesis
    by (simp add: scanned_unfold [OF sc raw] skipped_state_def Let_def)
next
  case True
  then obtain a b where ab: "split1 (lit ''---'') raw = [a, b]"
    using split1_two [of "lit ''---''" raw] by auto
  obtain meta where m: "parse_metadata U a = Inr meta"
    by (simp add: parse_metadata_entries)
  have t: "header_title U raw = meta_get meta (lit ''NASLOV'') []"
    using ab m by (simp add: header_title_def)
  show ?thesis
  proof (cases "meta_get meta (lit ''NASLOV'') [] = []")
    case e: True
    then show ?thesis
      using True ab m t by (simp add: scanned_unfold [OF sc raw] skipped_state_def Let_def)
  next
    case ne: False
    have "build_step U it st \<noteq> Some (Inr (skipped_state it st))"
    proof
      assume eq: "build_step U it st = Some (Inr (skipped_state it st))"
      then have "\<exists>st'. build_step U it st = Some (Inr st') \<and> warnings st' = warnings st @ [name it]"
        by (simp add: skipped_state_def)
      then show False
        using True ne ab m
        by (auto simp: scanned_unfold [OF sc raw] Let_def split: option.splits sum.splits)
    qed
    then show ?thesis using True ne t by simp
  qed
qed

lemma build_step_slugs:
  "build_step U it st = Some (Inr st') \<Longrightarrow>
   generated_slugs st' = (if scanned it then insert (name it) (generated_slugs st) else generated_slugs st)"
  unfolding build_step_def scanned_def Let_def
  by (auto split: if_splits option.splits sum.splits list.splits)

lemma build_loop_slugs:
  "build_loop U items st = Some (Inr st') \<Longrightarrow>
   generated_slugs st' = generated_slugs st \<union> scanned_slugs items"
proof (induction items arbitrary: st)
  case Nil
  then show ?case by (simp add: scanned_slugs_def)
next
  case (Cons it items)
  from Cons.prems obtain st1 where s1: "build_step U it st = Some (Inr st1)"
    and l: "build_loop U items st1 = Some (Inr st')"
    by (auto split: option.splits sum.splits)
  have "generated_slugs st' = generated_slugs st1 \<union> scanned_slugs items"
    using l by (rule Cons.IH)
  then show ?case
    using build_step_slugs [OF s1] by (auto simp: scanned_slugs_def)
qed

lemma sort_reverse_mset: "mset (sort_reverse f xs) = mset xs"
  by (simp add: sort_reverse_def)

lemma sort_reverse_sorted: "sorted (rev (map f (sort_reverse f xs)))"
  by (simp add: sort_reverse_def rev_map [symmetric])

lemma sort_reverse_stable:
  "filter (\<lambda>x. f x = k) (sort_reverse f xs) = filter (\<lambda>x. f x = k) xs"
  by (simp add: sort_reverse_def rev_filter [symmetric] sort_key_stable)

lemma build_blog_catalog:
  assumes "build_blog U items existing_posts = Some (Inr r)"
  shows "catalog r = sort_reverse post_date
           (batch r @ filter (\<lambda>ep. ep_slug ep \<notin> scanned_slugs items) existing_posts)"
proof -
  from assms obtain st where l: "build_loop U items
      \<lparr>posts = [], generated_slugs = {}, written = [], warnings = []\<rparr> = Some (Inr st)"
    and r: "r = \<lparr>html_files = written st, skipped = warnings st, batch = posts st,
        catalog = sort_reverse post_date
          (posts st @ filter (\<lambda>ep. ep_slug ep \<notin> generated_slugs st) existing_posts)\<rparr>"
    by (auto simp: build_blog_def Let_def split: option.splits sum.splits)
  have "generated_slugs st = scanned_slugs items"
    using build_loop_slugs [OF l] by simp
  then show ?thesis by (simp add: r)
qed

lemma default_date: "format_date_hr U (lit ''2026-01-01'') = Inr (lit ''1. sije'' @ [0x10D] @ lit ''nja 2026.'')"
  by (simp add: format_date_hr_def strptime_def strip_def isspace_def digit_value_def in_range_def
      days_in_month_def is_leap_def MONTHS_HR_def str_of_nat.simps)

lemma title_only_step:
  assumes sc: "scanned it" and raw: "sadrzaj it = Some raw"
    and c: "contains (lit ''---'') raw" and sp: "split1 (lit ''---'') raw = [h, b]"
    and m: "parse_metadata U h = Inr [lit ''NASLOV'' \<mapsto> title]" and t: "title \<noteq> []"
    and body: "txt_to_html_content b (name it) = Some content" and img: "first_image it = []"
  shows "build_step U it st =
    Some (Inr (st\<lparr>generated_slugs := insert (name it) (generated_slugs st),
      written := written st @
        [(name it @ lit ''.html'',
          \<lparr>p_title = title, p_desc = [], p_slug = name it,
           p_hero_img_url = lit ''https://tenderatlas.hr/img.png'', p_date = lit ''2026-01-01'',
           p_date_hr = lit ''1. sije'' @ [0x10D] @ lit ''nja 2026.'', p_tag = [0x10C] @ lit ''lanak'',
           p_hero_section = [], p_content_html = content\<rparr>)],
      posts := posts st @
        [[(lit ''file'', name it @ lit ''.html''), (lit ''title'', title),
          (lit ''description'', []), (lit ''date'', lit ''2026-01-01''),
          (lit ''image'', lit ''../img.png''), (lit ''tag'', [0x10C] @ lit ''lanak'')]]\<rparr>))"
  using c sp m t body img default_date [of U]
  by (simp add: scanned_unfold [OF sc raw] Let_def meta_get_def generate_html_def
      BASE_URL_def default_tag_def)

lemma post_folder_scanned:
  "nm \<noteq> [] \<Longrightarrow> hd nm \<noteq> of_char CHR ''_'' \<Longrightarrow> hd nm \<noteq> of_char CHR ''.'' \<Longrightarrow> nm \<noteq> lit ''img'' \<Longrightarrow>
   scanned (post_folder nm raw)"
  by (cases nm) (auto simp: scanned_def post_folder_def startswith_Cons startswith_Nil skip_dirs_def)

lemma one_line_body:
  assumes l: "splitlines (strip body) = [l]" and p: "is_para_line l" and s: "strip l \<noteq> []"
    and i: "of_char CHR ''*'' \<notin> set (strip l)" "of_char CHR ''['' \<notin> set (strip l)"
  shows "txt_to_html_content body f = Some (lit ''        <p>'' @ strip l @ lit ''</p>'')"
  unfolding txt_to_html_content_def l
  by (simp add: one_paragraph [OF p s i] close_list_def)

lemma para_b: "txt_to_html_content (lit ''b'') f = Some (lit ''        <p>b</p>'')"
proof -
  have s: "strip (lit ''b'') = lit ''b''" by (simp add: strip_def isspace_def)
  have l: "splitlines (strip (lit ''b'')) = [lit ''b'']"
    by (simp add: splitlines_def strip_def isspace_def is_linebreak_def)
  have p: "is_para_line (lit ''b'')"
    unfolding is_para_line_def para_break_def s by (simp add: startswith_def img_prefix_None)
  show ?thesis
    using one_line_body [OF l p, of f] s by simp
qed

lemma para_x: "txt_to_html_content (lit ''\<newline>x'') f = Some (lit ''        <p>x</p>'')"
proof -
  have s: "strip (lit ''x'') = lit ''x''" by (simp add: strip_def isspace_def)
  have l: "splitlines (strip (lit ''\<newline>x'')) = [lit ''x'']"
    by (simp add: splitlines_def strip_def isspace_def is_linebreak_def)
  have p: "is_para_line (lit ''x'')"
    unfolding is_para_line_def para_break_def s by (simp add: startswith_def img_prefix_None)
  show ?thesis
    using one_line_body [OF l p, of f] s by simp
qed

lemma title_meta:
  "parse_metadata U (lit ''NASLOV: a'') = Inr [lit ''NASLOV'' \<mapsto> lit ''a'']"
  "parse_metadata U (lit ''NASLOV: T\<newline>'') = Inr [lit ''NASLOV'' \<mapsto> lit ''T'']"
  "parse_metadata U [] = Inr Map.empty"
  by (simp_all add: parse_metadata_entries)
     (simp_all add: splitlines_def strip_def isspace_def is_linebreak_def header_entries_def
        line_entry_def str_upper_def upper_char_def)

lemma inline_title_step:
  "build_step U (post_folder (lit ''post'') (lit ''NASLOV: a---b'')) no_posts =
   Some (Inr \<lparr>posts =
        [[(lit ''file'', lit ''post.html''), (lit ''title'', lit ''a''),
          (lit ''description'', []), (lit ''date'', lit ''2026-01-01''),
          (lit ''image'', lit ''../img.png''), (lit ''tag'', [0x10C] @ lit ''lanak'')]],
      generated_slugs = {lit ''post''},
      written =
        [(lit ''post.html'',
          \<lparr>p_title = lit ''a'', p_desc = [], p_slug = lit ''post'',
           p_hero_img_url = lit ''https://tenderatlas.hr/img.png'', p_date = lit ''2026-01-01'',
           p_date_hr = lit ''1. sije'' @ [0x10D] @ lit ''nja 2026.'', p_tag = [0x10C] @ lit ''lanak'',
           p_hero_section = [], p_content_html = lit ''        <p>b</p>''\<rparr>)],
      warnings = []\<rparr>)"
proof -
  have sc: "scanned (post_folder (lit ''post'') (lit ''NASLOV: a---b''))"
    by (rule post_folder_scanned) simp_all
  have raw: "sadrzaj (post_folder (lit ''post'') (lit ''NASLOV: a---b'')) = Some (lit ''NASLOV: a---b'')"
    by (simp add: post_folder_def)
  have c: "contains (lit ''---'') (lit ''NASLOV: a---b'')"
    by (simp add: startswith_def)
  have sp: "split1 (lit ''---'') (lit ''NASLOV: a---b'') = [lit ''NASLOV: a'', lit ''b'']"
    by (simp add: split1_def startswith_def)
  have b: "txt_to_html_content (lit ''b'') (name (post_folder (lit ''post'') (lit ''NASLOV: a---b''))) =
      Some (lit ''        <p>b</p>'')"
    by (rule para_b)
  have "build_step U (post_folder (lit ''post'') (lit ''NASLOV: a---b'')) no_posts = Some (Inr (no_posts\<lparr>generated_slugs := insert (name (post_folder (lit ''post'') (lit ''NASLOV: a---b''))) (generated_slugs no_posts),
      written := written no_posts @
        [(name (post_folder (lit ''post'') (lit ''NASLOV: a---b'')) @ lit ''.html'',
          \<lparr>p_title = lit ''a'', p_desc = [], p_slug = name (post_folder (lit ''post'') (lit ''NASLOV: a---b'')),
           p_hero_img_url = lit ''https://tenderatlas.hr/img.png'', p_date = lit ''2026-01-01'',
           p_date_hr = lit ''1. sije'' @ [0x10D] @ lit ''nja 2026.'', p_tag = [0x10C] @ lit ''lanak'',
           p_hero_section = [], p_content_html = lit ''        <p>b</p>''\<rparr>)],
      posts := posts no_posts @
        [[(lit ''file'', name (post_folder (lit ''post'') (lit ''NASLOV: a---b'')) @ lit ''.html''), (lit ''title'', lit ''a''),
          (lit ''description'', []), (lit ''date'', lit ''2026-01-01''),
          (lit ''image'', lit ''../img.png''), (lit ''tag'', [0x10C] @ lit ''lanak'')]]\<rparr>))"
    by (rule title_only_step [OF sc raw c sp title_meta(1) _ b]) (simp_all add: post_folder_def)
  then show ?thesis
    by (simp add: no_posts_def post_folder_def)
qed

lemma no_separator_step:
  "build_step U (post_folder (lit ''post'') (lit ''no separator here'')) st =
   Some (Inr (skipped_state (post_folder (lit ''post'') (lit ''no separator here'')) st))"
proof -
  have sc: "scanned (post_folder (lit ''post'') (lit ''no separator here''))"
    by (rule post_folder_scanned) simp_all
  have raw: "sadrzaj (post_folder (lit ''post'') (lit ''no separator here'')) = Some (lit ''no separator here'')"
    by (simp add: post_folder_def)
  have "\<not> contains (lit ''---'') (lit ''no separator here'')"
    by (simp add: startswith_def)
  then show ?thesis
    using skip_iff [OF sc raw, of U st] by simp
qed



lemma legacy_slug: "ep_slug [(lit ''file'', lit ''post.html'')] = lit ''post''"
  by (simp add: ep_slug_def post_get_def startswith_def)

lemma skipped_build:
  "build_blog U [post_folder (lit ''post'') (lit ''no separator here'')] [[(lit ''file'', lit ''post.html'')]] =
   Some (Inr \<lparr>html_files = [], skipped = [lit ''post''], batch = [], catalog = []\<rparr>)"
  using no_separator_step [of U "\<lparr>posts = [], generated_slugs = {}, written = [], warnings = []\<rparr>"] legacy_slug
  by (simp add: build_blog_def skipped_state_def post_folder_def sort_reverse_def)

lemma claimed_skipped:
  "claimed_catalog [] [[(lit ''file'', lit ''post.html'')]] = [[(lit ''file'', lit ''post.html'')]]"
  by (simp add: claimed_catalog_def sort_reverse_def)

lemma html_folder_step:
  "build_step U (post_folder (lit ''a.html'') (lit ''NASLOV: T\<newline>---\<newline>x'')) no_posts =
   Some (Inr \<lparr>posts =
        [[(lit ''file'', lit ''a.html.html''), (lit ''title'', lit ''T''),
          (lit ''description'', []), (lit ''date'', lit ''2026-01-01''),
          (lit ''image'', lit ''../img.png''), (lit ''tag'', [0x10C] @ lit ''lanak'')]],
      generated_slugs = {lit ''a.html''},
      written =
        [(lit ''a.html.html'',
          \<lparr>p_title = lit ''T'', p_desc = [], p_slug = lit ''a.html'',
           p_hero_img_url = lit ''https://tenderatlas.hr/img.png'', p_date = lit ''2026-01-01'',
           p_date_hr = lit ''1. sije'' @ [0x10D] @ lit ''nja 2026.'', p_tag = [0x10C] @ lit ''lanak'',
           p_hero_section = [], p_content_html = lit ''        <p>x</p>''\<rparr>)],
      warnings = []\<rparr>)"
proof -
  let ?it = "post_folder (lit ''a.html'') (lit ''NASLOV: T\<newline>---\<newline>x'')"
  have sc: "scanned ?it"
    by (rule post_folder_scanned) simp_all
  have raw: "sadrzaj ?it = Some (lit ''NASLOV: T\<newline>---\<newline>x'')"
    by (simp add: post_folder_def)
  have c: "contains (lit ''---'') (lit ''NASLOV: T\<newline>---\<newline>x'')"
    by (simp add: startswith_def)
  have sp: "split1 (lit ''---'') (lit ''NASLOV: T\<newline>---\<newline>x'') = [lit ''NASLOV: T\<newline>'', lit ''\<newline>x'']"
    by (simp add: split1_def startswith_def)
  have b: "txt_to_html_content (lit ''\<newline>x'') (name ?it) = Some (lit ''        <p>x</p>'')"
    by (rule para_x)
  have "build_step U ?it no_posts = Some (Inr (no_posts\<lparr>generated_slugs := insert (name ?it) (generated_slugs no_posts),
      written := written no_posts @
        [(name ?it @ lit ''.html'',
          \<lparr>p_title = lit ''T'', p_desc = [], p_slug = name ?it,
           p_hero_img_url = lit ''https://tenderatlas.hr/img.png'', p_date = lit ''2026-01-01'',
           p_date_hr = lit ''1. sije'' @ [0x10D] @ lit ''nja 2026.'', p_tag = [0x10C] @ lit ''lanak'',
           p_hero_section = [], p_content_html = lit ''        <p>x</p>''\<rparr>)],
      posts := posts no_posts @
        [[(lit ''file'', name ?it @ lit ''.html''), (lit ''title'', lit ''T''),
          (lit ''description'', []), (lit ''date'', lit ''2026-01-01''),
          (lit ''image'', lit ''../img.png''), (lit ''tag'', [0x10C] @ lit ''lanak'')]]\<rparr>))"
    by (rule title_only_step [OF sc raw c sp title_meta(2) _ b]) (simp_all add: post_folder_def)
  then show ?thesis
    by (simp add: no_posts_def post_folder_def)
qed

lemma html_slug:
  "ep_slug [(lit ''file'', lit ''a.html.html''), (lit ''title'', lit ''T''),
          (lit ''description'', []), (lit ''date'', lit ''2026-01-01''),
          (lit ''image'', lit ''../img.png''), (lit ''tag'', [0x10C] @ lit ''lanak'')] = lit ''a''"
  by (simp add: ep_slug_def post_get_def startswith_def)

lemma first_run:
  "catalog_of (build_blog U [post_folder (lit ''a.html'') (lit ''NASLOV: T\<newline>---\<newline>x'')] []) =
   Some [[(lit ''file'', lit ''a.html.html''), (lit ''title'', lit ''T''),
          (lit ''description'', []), (lit ''date'', lit ''2026-01-01''),
          (lit ''image'', lit ''../img.png''), (lit ''tag'', [0x10C] @ lit ''lanak'')]]"
  using html_folder_step [of U]
  by (simp add: catalog_of_def build_blog_def no_posts_def sort_reverse_def)

lemma second_run:
  "catalog_of (build_blog U [post_folder (lit ''a.html'') (lit ''NASLOV: T\<newline>---\<newline>x'')]
     [[(lit ''file'', lit ''a.html.html''), (lit ''title'', lit ''T''),
          (lit ''description'', []), (lit ''date'', lit ''2026-01-01''),
          (lit ''image'', lit ''../img.png''), (lit ''tag'', [0x10C] @ lit ''lanak'')]]) =
   Some [[(lit ''file'', lit ''a.html.html''), (lit ''title'', lit ''T''),
          (lit ''description'', []), (lit ''date'', lit ''2026-01-01''),
          (lit ''image'', lit ''../img.png''), (lit ''tag'', [0x10C] @ lit ''lanak'')],
         [(lit ''file'', lit ''a.html.html''), (lit ''title'', lit ''T''),
          (lit ''description'', []), (lit ''date'', lit ''2026-01-01''),
          (lit ''image'', lit ''../img.png''), (lit ''tag'', [0x10C] @ lit ''lanak'')]]"
  using html_folder_step [of U] html_slug
  by (simp add: catalog_of_def build_blog_def no_posts_def sort_reverse_def post_date_def post_get_def)

lemma legacy_slug2:
  "ep_slug [(lit ''file'', lit ''legacy-post.html''), (lit ''date'', lit ''2027-03-01'')] = lit ''legacy-post''"
  by (simp add: ep_slug_def post_get_def startswith_def)

lemma legacy_run:
  "build_blog U [post_folder (lit ''post'') (lit ''NASLOV: a---b'')]
     [[(lit ''file'', lit ''legacy-post.html''), (lit ''date'', lit ''2027-03-01'')]] =
   Some (Inr \<lparr>html_files =
        [(lit ''post.html'',
          \<lparr>p_title = lit ''a'', p_desc = [], p_slug = lit ''post'',
           p_hero_img_url = lit ''https://tenderatlas.hr/img.png'', p_date = lit ''2026-01-01'',
           p_date_hr = lit ''1. sije'' @ [0x10D] @ lit ''nja 2026.'', p_tag = [0x10C] @ lit ''lanak'',
           p_hero_section = [], p_content_html = lit ''        <p>b</p>''\<rparr>)],
      skipped = [],
      batch =
        [[(lit ''file'', lit ''post.html''), (lit ''title'', lit ''a''),
          (lit ''description'', []), (lit ''date'', lit ''2026-01-01''),
          (lit ''image'', lit ''../img.png''), (lit ''tag'', [0x10C] @ lit ''lanak'')]],
      catalog =
        [[(lit ''file'', lit ''legacy-post.html''), (lit ''date'', lit ''2027-03-01'')],
         [(lit ''file'', lit ''post.html''), (lit ''title'', lit ''a''),
          (lit ''description'', []), (lit ''date'', lit ''2026-01-01''),
          (lit ''image'', lit ''../img.png''), (lit ''tag'', [0x10C] @ lit ''lanak'')]]\<rparr>)"
  using inline_title_step [of U] legacy_slug2
  by (simp add: build_blog_def no_posts_def sort_reverse_def post_date_def post_get_def)

lemma replace_absent: "\<not> contains old s \<Longrightarrow> old \<noteq> [] \<Longrightarrow> replace old new s = s"
  by (induction s) auto

lemma html_no_overlap:
  "\<not> startswith (lit ''.html'') (c # cs) \<Longrightarrow> \<not> startswith (lit ''.html'') (c # cs @ lit ''.html'')"
  by (cases cs; cases "tl cs"; cases "tl (tl cs)"; cases "tl (tl (tl cs))")
     (auto simp: startswith_def)

lemma replace_extension:
  "\<not> contains (lit ''.html'') s \<Longrightarrow> replace (lit ''.html'') [] (s @ lit ''.html'') = s"
proof (induction s)
  case Nil
  show ?case by (simp add: startswith_def)
next
  case (Cons c cs)
  then have n: "\<not> startswith (lit ''.html'') (c # cs)" and r: "\<not> contains (lit ''.html'') cs"
    by simp_all
  have "\<not> startswith (lit ''.html'') (c # cs @ lit ''.html'')"
    using n by (rule html_no_overlap)
  then show ?case using Cons.IH [OF r] by simp
qed

lemma endswith_split: "endswith suf s \<Longrightarrow> s = take (length s - length suf) s @ suf"
  by (metis append_take_drop_id endswith_def)

lemma plain_file_slug:
  assumes p: "plain_file ep"
  shows "ep_slug ep = record_slug ep"
proof (cases "endswith (lit ''.html'') (post_get ep (lit ''file'') [])")
  case True
  let ?f = "post_get ep (lit ''file'') []"
  from True have s: "record_slug ep = take (length ?f - length (lit ''.html'')) ?f"
    by (simp add: record_slug_def Let_def)
  have "replace (lit ''.html'') [] (record_slug ep @ lit ''.html'') = record_slug ep"
    using p unfolding plain_file_def by (rule replace_extension)
  moreover have "record_slug ep @ lit ''.html'' = ?f"
    unfolding s using endswith_split [OF True] by simp
  ultimately show ?thesis by (simp add: ep_slug_def)
next
  case False
  then have s: "record_slug ep = post_get ep (lit ''file'') []"
    by (simp add: record_slug_def Let_def)
  show ?thesis
    using p unfolding plain_file_def s ep_slug_def
    by (intro replace_absent) simp_all
qed

lemma legacy_plain:
  "plain_file [(lit ''file'', lit ''legacy-post.html''), (lit ''date'', lit ''2027-03-01'')]"
  "record_slug [(lit ''file'', lit ''legacy-post.html''), (lit ''date'', lit ''2027-03-01'')] =
     lit ''legacy-post''"
  by (simp_all add: plain_file_def record_slug_def endswith_def post_get_def startswith_def)

lemma doubled_extension_not_plain:
  "\<not> plain_file [(lit ''file'', lit ''a.html.html''), (lit ''title'', lit ''T''),
          (lit ''description'', []), (lit ''date'', lit ''2026-01-01''),
          (lit ''image'', lit ''../img.png''), (lit ''tag'', [0x10C] @ lit ''lanak'')]"
  by (simp add: plain_file_def record_slug_def endswith_def post_get_def startswith_def)

text \<open>
  C3. The claim is that a run completes whatever a \<^verbatim>\<open>sadrzaj.txt\<close> holds, a malformed
  one being skipped with a warning. A folder whose header gives a date that is not
  \<^verbatim>\<open>YYYY-MM-DD\<close> has its separator and its title, so it is not skipped, and
  \<^verbatim>\<open>format_date_hr\<close> raises \<^verbatim>\<open>ValueError\<close> inside \<^verbatim>\<open>generate_html\<close>. Nothing catches it:
  the run ends with the exception, whatever the old catalog and the Unicode tables.
\<close>

theorem C3_malformed_date_aborts_run:
  "build_blog U
     [post_folder (lit ''post'') (lit ''NASLOV: A\<newline>DATUM: 20.02.2026\<newline>---\<newline>text'')]
     existing_posts = Some (Inl ValueError)"
  using bad_date_build [of U existing_posts] by (simp add: post_folder_def)




text \<open>
  C2, as claimed: the carried-over records are those whose slug is not a slug of the
  new batch. A folder \<^verbatim>\<open>post\<close> without separator is skipped, so the batch is empty, and
  by the claim the old record of \<^verbatim>\<open>post.html\<close> would stay. The run drops it: the name
  of a folder enters \<^verbatim>\<open>generated_slugs\<close> before the folder is checked.
\<close>

theorem C2_counterexample:
  "build_blog plain_unicode [post_folder (lit ''post'') (lit ''no separator here'')]
     [[(lit ''file'', lit ''post.html'')]] =
     Some (Inr \<lparr>html_files = [], skipped = [lit ''post''], batch = [], catalog = []\<rparr>) \<and>
   claimed_catalog [] [[(lit ''file'', lit ''post.html'')]] = [[(lit ''file'', lit ''post.html'')]]"
  using skipped_build [of plain_unicode] claimed_skipped by simp

text \<open>
  C2, amended. When a run completes, and \<^verbatim>\<open>.html\<close> occurs in the file name of an old
  record as its extension at most, the catalog of the run holds the records of the
  batch and those old records whose slug is not the name of a folder that the scan has
  read (built or skipped), nothing else and each as often; the dates descend; and the
  records of one date stand in the order they have in the batch followed by the old
  catalog. The slug of an old record is the base name of its file.
\<close>

theorem C2_merged_catalog:
  assumes "build_blog U items existing_posts = Some (Inr r)"
    and "\<forall>ep\<in>set existing_posts. plain_file ep"
  shows "mset (catalog r) =
           mset (batch r @
                 filter (\<lambda>ep. record_slug ep \<notin> scanned_slugs items) existing_posts) \<and>
         sorted (rev (map post_date (catalog r))) \<and>
         (\<forall>d. filter (\<lambda>p. post_date p = d) (catalog r) =
              filter (\<lambda>p. post_date p = d)
                (batch r @
                 filter (\<lambda>ep. record_slug ep \<notin> scanned_slugs items) existing_posts))"
proof -
  have "filter (\<lambda>ep. ep_slug ep \<notin> scanned_slugs items) existing_posts =
        filter (\<lambda>ep. record_slug ep \<notin> scanned_slugs items) existing_posts"
    using assms(2) by (intro filter_cong refl) (simp add: plain_file_slug)
  then have c: "catalog r = sort_reverse post_date
      (batch r @ filter (\<lambda>ep. record_slug ep \<notin> scanned_slugs items) existing_posts)"
    using build_blog_catalog [OF assms(1)] by simp
  show ?thesis
    unfolding c
    by (simp only: sort_reverse_mset sort_reverse_sorted sort_reverse_stable) simp
qed

theorem C2_witness:
  "build_blog plain_unicode [post_folder (lit ''post'') (lit ''NASLOV: a---b'')]
     [[(lit ''file'', lit ''legacy-post.html''), (lit ''date'', lit ''2027-03-01'')]] =
   Some (Inr \<lparr>html_files =
        [(lit ''post.html'',
          \<lparr>p_title = lit ''a'', p_desc = [], p_slug = lit ''post'',
           p_hero_img_url = lit ''https://tenderatlas.hr/img.png'',
           p_date = lit ''2026-01-01'',
           p_date_hr = lit ''1. sije'' @ [0x10D] @ lit ''nja 2026.'',
           p_tag = [0x10C] @ lit ''lanak'', p_hero_section = [],
           p_content_html = lit ''        <p>b</p>''\<rparr>)],
      skipped = [],
      batch =
        [[(lit ''file'', lit ''post.html''), (lit ''title'', lit ''a''),
          (lit ''description'', []), (lit ''date'', lit ''2026-01-01''),
          (lit ''image'', lit ''../img.png''), (lit ''tag'', [0x10C] @ lit ''lanak'')]],
      catalog =
        [[(lit ''file'', lit ''legacy-post.html''), (lit ''date'', lit ''2027-03-01'')],
         [(lit ''file'', lit ''post.html''), (lit ''title'', lit ''a''),
          (lit ''description'', []), (lit ''date'', lit ''2026-01-01''),
          (lit ''image'', lit ''../img.png''), (lit ''tag'', [0x10C] @ lit ''lanak'')]]\<rparr>) \<and>
   plain_file [(lit ''file'', lit ''legacy-post.html''), (lit ''date'', lit ''2027-03-01'')] \<and>
   record_slug [(lit ''file'', lit ''legacy-post.html''), (lit ''date'', lit ''2027-03-01'')] =
     lit ''legacy-post'' \<and>
   sorted (rev (map post_date
     [[(lit ''file'', lit ''legacy-post.html''), (lit ''date'', lit ''2027-03-01'')],
      [(lit ''file'', lit ''post.html''), (lit ''title'', lit ''a''),
       (lit ''description'', []), (lit ''date'', lit ''2026-01-01''),
       (lit ''image'', lit ''../img.png''), (lit ''tag'', [0x10C] @ lit ''lanak'')]]))"
  using legacy_run [of plain_unicode] legacy_plain
    C2_merged_catalog [OF legacy_run [of plain_unicode]]
  by simp

text \<open>
  C5. The claim is that a second run on unchanged inputs gives the catalog of the first
  run again. For a folder named \<^verbatim>\<open>a.html\<close> it does not. The first run writes one record,
  with the file \<^verbatim>\<open>a.html.html\<close>. The second run reads that record back, takes every
  \<^verbatim>\<open>.html\<close> out of its file name and gets the slug \<^verbatim>\<open>a\<close>, which is not the name of the
  folder: the record is carried over beside the fresh one, and the catalog has it twice.
\<close>

theorem C5_second_run_duplicates_record:
  "catalog_of (build_blog plain_unicode
      [post_folder (lit ''a.html'') (lit ''NASLOV: T\<newline>---\<newline>x'')] []) =
     Some [[(lit ''file'', lit ''a.html.html''), (lit ''title'', lit ''T''),
       (lit ''description'', []), (lit ''date'', lit ''2026-01-01''),
       (lit ''image'', lit ''../img.png''), (lit ''tag'', [0x10C] @ lit ''lanak'')]] \<and>
   catalog_of (build_blog plain_unicode
      [post_folder (lit ''a.html'') (lit ''NASLOV: T\<newline>---\<newline>x'')]
      [[(lit ''file'', lit ''a.html.html''), (lit ''title'', lit ''T''),
       (lit ''description'', []), (lit ''date'', lit ''2026-01-01''),
       (lit ''image'', lit ''../img.png''), (lit ''tag'', [0x10C] @ lit ''lanak'')]]) =
     Some [[(lit ''file'', lit ''a.html.html''), (lit ''title'', lit ''T''),
       (lit ''description'', []), (lit ''date'', lit ''2026-01-01''),
       (lit ''image'', lit ''../img.png''), (lit ''tag'', [0x10C] @ lit ''lanak'')],
           [(lit ''file'', lit ''a.html.html''), (lit ''title'', lit ''T''),
       (lit ''description'', []), (lit ''date'', lit ''2026-01-01''),
       (lit ''image'', lit ''../img.png''), (lit ''tag'', [0x10C] @ lit ''lanak'')]]"
  using first_run [of plain_unicode] second_run [of plain_unicode] by simp

end
